theory Spec2Isabelle
  imports Complex_Main
begin

section \<open>Shared data: vectors, sprites, environment state, exceptions\<close>

text \<open>
  The three modules (\<^verbatim>\<open>select_move.py\<close>, \<^verbatim>\<open>l2_reward.py\<close>, \<^verbatim>\<open>gym_wrapper.py\<close>) work on
  numpy arrays of Python floats. Numbers are modelled as \<^typ>\<open>real\<close>: every operation is
  written in the order the source performs it, and rounding, infinities and NaN are not
  modelled. Division by zero is \<open>0\<close> in HOL while numpy yields \<open>inf\<close> or \<open>nan\<close>, so
  statements about computed velocities assume a non-zero mass.

  A two-component array (a position, a velocity) is a pair.
\<close>

type_synonym vec2 = "real \<times> real"

definition vsub :: "vec2 \<Rightarrow> vec2 \<Rightarrow> vec2" where
  "vsub a b = (fst a - fst b, snd a - snd b)"

definition vadd :: "vec2 \<Rightarrow> vec2 \<Rightarrow> vec2" where
  "vadd a b = (fst a + fst b, snd a + snd b)"

definition vdiv :: "vec2 \<Rightarrow> real \<Rightarrow> vec2" where
  "vdiv a m = (fst a / m, snd a / m)"

definition vmul :: "vec2 \<Rightarrow> real \<Rightarrow> vec2" where
  "vmul a c = (fst a * c, snd a * c)"

text \<open>
  The sprite class belongs to the sprite library, which is not part of these modules.
  The modules read \<^verbatim>\<open>position\<close> and \<^verbatim>\<open>mass\<close>, write \<^verbatim>\<open>velocity\<close> and call
  \<^verbatim>\<open>contains_point\<close> and \<^verbatim>\<open>overlaps_sprite\<close>. The remaining attributes of a sprite
  (shape, angle, \<dots>) are the field \<open>geom\<close> of an arbitrary type, and the two geometric
  tests are parameters \<open>cp\<close> and \<open>ov\<close> of the functions that call them.
\<close>

record 'g sprite =
  position :: vec2
  velocity :: vec2
  mass :: real
  geom :: 'g

text \<open>
  The environment state is a dict from layer names to lists of sprite objects. Sprites are
  mutated in place, so an object is a reference: \<open>layer_ids\<close> gives the references held by
  each layer and \<open>objects\<close> the object behind each reference.
\<close>

record 'g env_state =
  layer_ids :: "string \<rightharpoonup> nat list"
  objects :: "nat \<Rightarrow> 'g sprite"

datatype error = KeyError | IndexError | ValueError | AttributeError

section \<open>The Select-Move action space (\<^verbatim>\<open>select_move.py\<close>)\<close>

text \<open>
  An action is an array of shape \<open>(4,)\<close>: \<open>[first_x, first_y, second_x, second_y]\<close>.
  \<open>noised_action[:2]\<close> and \<open>noised_action[2:]\<close> are its two halves.
\<close>

type_synonym action = "real \<times> real \<times> real \<times> real"

fun position_of :: "action \<Rightarrow> vec2" where
  "position_of (a, b, c, d) = (a, b)"

fun target_of :: "action \<Rightarrow> vec2" where
  "target_of (a, b, c, d) = (c, d)"

fun add4 :: "action \<Rightarrow> action \<Rightarrow> action" where
  "add4 (a, b, c, d) (a', b', c', d') = (a + a', b + b', c + c', d + d')"

text \<open>
  The constructor argument \<^verbatim>\<open>noise_scale\<close>: \<^verbatim>\<open>None\<close>, a Python number, a Python list of
  numbers, or a numpy array of numbers.
\<close>

datatype noise_scale =
    NoiseNone
  | NoiseScalar real
  | NoiseList "real list"
  | NoiseArray "real list"

text \<open>
  The test \<^verbatim>\<open>if self._noise_scale:\<close> asks Python for the truth value of the object:
  \<^verbatim>\<open>None\<close> is false, a number is true unless zero, a list is true unless empty, and a numpy
  array with more than one element raises \<^verbatim>\<open>ValueError\<close> (the truth value of such an
  array is ambiguous); an array of one element has the truth value of that element and an
  empty array is false.
\<close>

fun truth_value :: "noise_scale \<Rightarrow> error + bool" where
  "truth_value NoiseNone = Inr False"
| "truth_value (NoiseScalar x) = Inr (x \<noteq> 0)"
| "truth_value (NoiseList xs) = Inr (xs \<noteq> [])"
| "truth_value (NoiseArray []) = Inr False"
| "truth_value (NoiseArray [x]) = Inr (x \<noteq> 0)"
| "truth_value (NoiseArray (x # y # zs)) = Inl ValueError"

text \<open>
  \<^verbatim>\<open>np.random.normal(loc=0.0, scale=s, size=(4,))\<close> broadcasts \<open>s\<close> to four components
  (one value is repeated, four values are taken as they are, any other length does not
  broadcast and raises \<^verbatim>\<open>ValueError\<close>), raises \<^verbatim>\<open>ValueError\<close> on a negative standard
  deviation, and returns \<open>loc + s * z\<close> for a standard normal draw \<open>z\<close>. The draw comes
  from numpy's global generator; here it is the argument \<open>z\<close>.
\<close>

fun broadcast4 :: "real list \<Rightarrow> error + action" where
  "broadcast4 [x] = Inr (x, x, x, x)"
| "broadcast4 [a, b, c, d] = Inr (a, b, c, d)"
| "broadcast4 xs = Inl ValueError"

fun scale_components :: "noise_scale \<Rightarrow> error + action" where
  "scale_components NoiseNone = Inl ValueError"
| "scale_components (NoiseScalar x) = Inr (x, x, x, x)"
| "scale_components (NoiseList xs) = broadcast4 xs"
| "scale_components (NoiseArray xs) = broadcast4 xs"

fun random_normal :: "noise_scale \<Rightarrow> action \<Rightarrow> error + action" where
  "random_normal s (z1, z2, z3, z4) =
     (case scale_components s of
        Inl e \<Rightarrow> Inl e
      | Inr (s1, s2, s3, s4) \<Rightarrow>
          if s1 < 0 \<or> s2 < 0 \<or> s3 < 0 \<or> s4 < 0 then Inl ValueError
          else Inr (0 + s1 * z1, 0 + s2 * z2, 0 + s3 * z3, 0 + s4 * z4))"

text \<open>The object: the attributes the constructor stores.\<close>

record select_move =
  scale :: real
  motion_cost :: real
  noise_scale :: noise_scale
  instant_move :: bool
  action_layers :: "string list"

text \<open>
  \<^verbatim>\<open>__init__\<close>: a layer argument that is not a list or tuple is wrapped into a
  one-element tuple.
\<close>

datatype layers_arg = LayerName string | LayerNames "string list"

fun normalize_layers :: "layers_arg \<Rightarrow> string list" where
  "normalize_layers (LayerName l) = [l]"
| "normalize_layers (LayerNames ls) = ls"

definition SelectMove :: "layers_arg \<Rightarrow> real \<Rightarrow> real \<Rightarrow> noise_scale \<Rightarrow> bool \<Rightarrow> select_move" where
  "SelectMove layers sc mc ns im =
     \<lparr>scale = sc, motion_cost = mc, noise_scale = ns, instant_move = im,
      action_layers = normalize_layers layers\<rparr>"

text \<open>\<^verbatim>\<open>get_motion\<close>: \<open>delta_pos = action - sprite.position\<close>.\<close>

definition get_motion :: "vec2 \<Rightarrow> 'g sprite \<Rightarrow> vec2" where
  "get_motion act sp = vsub act (position sp)"

text \<open>\<^verbatim>\<open>apply_noise_to_action\<close>.\<close>

definition apply_noise_to_action :: "select_move \<Rightarrow> action \<Rightarrow> action \<Rightarrow> error + action" where
  "apply_noise_to_action self z act =
     (case truth_value (noise_scale self) of
        Inl e \<Rightarrow> Inl e
      | Inr True \<Rightarrow>
          (case random_normal (noise_scale self) z of
             Inl e \<Rightarrow> Inl e
           | Inr noise \<Rightarrow> Inr (add4 act noise))
      | Inr False \<Rightarrow> Inr act)"

text \<open>
  \<^verbatim>\<open>get_sprite_from_position\<close>: the loop \<^verbatim>\<open>for sprite in sprites[::-1]\<close> returns the first
  sprite of the reversed list that contains the position, and \<^verbatim>\<open>None\<close> after the loop.
\<close>

fun scan_sprites :: "('g sprite \<Rightarrow> vec2 \<Rightarrow> bool) \<Rightarrow> (nat \<Rightarrow> 'g sprite) \<Rightarrow> vec2 \<Rightarrow> nat list \<Rightarrow> nat option" where
  "scan_sprites cp obj pos [] = None"
| "scan_sprites cp obj pos (s # ss) =
     (if cp (obj s) pos then Some s else scan_sprites cp obj pos ss)"

definition get_sprite_from_position :: "('g sprite \<Rightarrow> vec2 \<Rightarrow> bool) \<Rightarrow> (nat \<Rightarrow> 'g sprite) \<Rightarrow> vec2 \<Rightarrow> nat list \<Rightarrow> nat option" where
  "get_sprite_from_position cp obj pos sprites = scan_sprites cp obj pos (rev sprites)"

text \<open>
  The two nested loops of \<^verbatim>\<open>step\<close> that fill the list \<^verbatim>\<open>sprites\<close>: the inner loop appends
  the sprites of one layer one by one, the outer loop goes through the configured layers;
  \<^verbatim>\<open>state[action_layer]\<close> raises \<^verbatim>\<open>KeyError\<close> for a layer the state does not have.
\<close>

fun append_layer :: "nat list \<Rightarrow> nat list \<Rightarrow> nat list" where
  "append_layer acc [] = acc"
| "append_layer acc (s # ss) = append_layer (acc @ [s]) ss"

fun collect_sprites :: "(string \<rightharpoonup> nat list) \<Rightarrow> string list \<Rightarrow> nat list \<Rightarrow> error + nat list" where
  "collect_sprites st [] acc = Inr acc"
| "collect_sprites st (l # ls) acc =
     (case st l of
        None \<Rightarrow> Inl KeyError
      | Some ss \<Rightarrow> collect_sprites st ls (append_layer acc ss))"

text \<open>
  \<^verbatim>\<open>step\<close>. Every exception is raised before the velocity is written, so a raised
  exception leaves the state as it was; the result is the exception or the state after the
  call (the method itself returns \<^verbatim>\<open>None\<close>).
\<close>

definition step :: "('g sprite \<Rightarrow> vec2 \<Rightarrow> bool) \<Rightarrow> select_move \<Rightarrow> 'g env_state \<Rightarrow> action \<Rightarrow> action \<Rightarrow> error + 'g env_state" where
  "step cp self st z act =
     (case apply_noise_to_action self z act of
        Inl e \<Rightarrow> Inl e
      | Inr noised_action \<Rightarrow>
          (case collect_sprites (layer_ids st) (action_layers self) [] of
             Inl e \<Rightarrow> Inl e
           | Inr sprites \<Rightarrow>
               (case get_sprite_from_position cp (objects st) (position_of noised_action) sprites of
                  None \<Rightarrow> Inr st
                | Some c \<Rightarrow>
                    (let clicked_sprite = objects st c;
                         motion = get_motion (target_of noised_action) clicked_sprite;
                         delta = vmul (vdiv motion (mass clicked_sprite)) (scale self)
                     in if \<not> instant_move self
                        then Inr (st\<lparr>objects := (objects st)
                               (c := clicked_sprite\<lparr>velocity := vadd (velocity clicked_sprite) delta\<rparr>)\<rparr>)
                        else Inr (st\<lparr>objects := (objects st)
                               (c := clicked_sprite\<lparr>velocity := delta\<rparr>)\<rparr>)))))"

text \<open>
  The state after a call of \<^verbatim>\<open>step\<close>, whether it returned or raised: an exception is
  raised before the only write, so the state is then the state before the call.
\<close>

definition state_after :: "'g env_state \<Rightarrow> error + 'g env_state \<Rightarrow> 'g env_state" where
  "state_after st r = (case r of Inl e \<Rightarrow> st | Inr st' \<Rightarrow> st')"

text \<open>
  The claim about the selected sprite speaks of the flattened, layer-ordered sequence and
  of the sprite appearing latest in it. Following those words: the flattened sequence is
  the concatenation of the configured layers, and the selected sprite is the last element
  of the subsequence of sprites that contain the position.
\<close>

definition flattened_layers :: "(string \<rightharpoonup> nat list) \<Rightarrow> string list \<Rightarrow> nat list" where
  "flattened_layers st ls = concat (map (\<lambda>l. the (st l)) ls)"

definition latest_containing :: "('g sprite \<Rightarrow> vec2 \<Rightarrow> bool) \<Rightarrow> (nat \<Rightarrow> 'g sprite) \<Rightarrow> vec2 \<Rightarrow> nat list \<Rightarrow> nat option" where
  "latest_containing cp obj pos sprites =
     (let hits = filter (\<lambda>s. cp (obj s) pos) sprites
      in if hits = [] then None else Some (last hits))"

text \<open>
  A concrete containment test for running the model on examples: the sprite is an
  axis-parallel square around its position, with half-width \<open>geom\<close>.
\<close>

definition square_contains :: "real sprite \<Rightarrow> vec2 \<Rightarrow> bool" where
  "square_contains sp p =
     (\<bar>fst p - fst (position sp)\<bar> \<le> geom sp \<and> \<bar>snd p - snd (position sp)\<bar> \<le> geom sp)"

section \<open>The proximity reward rule (\<^verbatim>\<open>l2_reward.py\<close>)\<close>

text \<open>
  \<^verbatim>\<open>_steps_until_reset\<close> holds \<^verbatim>\<open>np.inf\<close> or the configured number of steps, an integer
  by the constructor's documentation, which defaults to \<^verbatim>\<open>np.inf\<close>. The three operations
  the source applies to it are \<open>x - 1\<close>, \<open>x == np.inf\<close> and \<open>x < 0\<close>.
\<close>

datatype counter = Count int | NpInf

fun decrement :: "counter \<Rightarrow> counter" where
  "decrement (Count n) = Count (n - 1)"
| "decrement NpInf = NpInf"

fun is_inf :: "counter \<Rightarrow> bool" where
  "is_inf (Count n) = False"
| "is_inf NpInf = True"

fun below_zero :: "counter \<Rightarrow> bool" where
  "below_zero (Count n) = (n < 0)"
| "below_zero NpInf = False"

text \<open>
  The object. \<^verbatim>\<open>__init__\<close> does not create the attribute \<^verbatim>\<open>_steps_until_reset\<close>; only
  \<^verbatim>\<open>reset\<close> does, so the field is \<open>None\<close> until the first reset. The attribute
  \<^verbatim>\<open>_condition\<close> is stored by the constructor and read nowhere; it is left out.
\<close>

record l2_reward =
  layers_0 :: "string list"
  layers_1 :: "string list"
  has_made_contact :: bool
  reset_steps_after_contact :: counter
  terminate_distance :: real
  raw_reward_multiplier :: real
  steps_until_reset :: "counter option"

definition L2Reward :: "layers_arg \<Rightarrow> layers_arg \<Rightarrow> counter \<Rightarrow> real \<Rightarrow> real \<Rightarrow> l2_reward" where
  "L2Reward l0 l1 steps distance multiplier =
     \<lparr>layers_0 = normalize_layers l0, layers_1 = normalize_layers l1,
      has_made_contact = False, reset_steps_after_contact = steps,
      terminate_distance = distance, raw_reward_multiplier = multiplier,
      steps_until_reset = None\<rparr>"

definition reset :: "l2_reward \<Rightarrow> l2_reward" where
  "reset self = self\<lparr>steps_until_reset := Some NpInf, has_made_contact := False\<rparr>"

definition has_finished :: "l2_reward \<Rightarrow> bool" where
  "has_finished self = has_made_contact self"

text \<open>\<^verbatim>\<open>_single_sprite_reward\<close>: \<open>np.sum((sprite.position - goal_position)**2.)**0.5\<close>.\<close>

definition single_sprite_reward :: "l2_reward \<Rightarrow> 'g sprite \<Rightarrow> vec2 \<Rightarrow> real" where
  "single_sprite_reward self sp goal_position =
     (let d = vsub (position sp) goal_position;
          goal_distance = sqrt ((fst d)\<^sup>2 + (snd d)\<^sup>2);
          raw_reward = terminate_distance self - goal_distance
      in raw_reward_multiplier self * raw_reward)"

text \<open>The comprehension \<^verbatim>\<open>[s for k in layers for s in state[k]]\<close>.\<close>

fun layer_sprites :: "(string \<rightharpoonup> nat list) \<Rightarrow> string list \<Rightarrow> error + nat list" where
  "layer_sprites st [] = Inr []"
| "layer_sprites st (k # ks) =
     (case st k of
        None \<Rightarrow> Inl KeyError
      | Some ss \<Rightarrow>
          (case layer_sprites st ks of
             Inl e \<Rightarrow> Inl e
           | Inr later \<Rightarrow> Inr (ss @ later)))"

text \<open>
  \<^verbatim>\<open>reward\<close> returns the pair \<open>(reward, should_reset)\<close> or raises; the object after the
  call is the second component. \<^verbatim>\<open>has_made_contact\<close> is written before
  \<^verbatim>\<open>_steps_until_reset\<close> is first read, so a call on an object that was never reset raises
  \<^verbatim>\<open>AttributeError\<close> after that write.
\<close>

definition reward :: "('g sprite \<Rightarrow> 'g sprite \<Rightarrow> bool) \<Rightarrow> l2_reward \<Rightarrow> 'g env_state \<Rightarrow> (error + real \<times> bool) \<times> l2_reward" where
  "reward ov self st =
     (case layer_sprites (layer_ids st) (layers_0 self) of
        Inl e \<Rightarrow> (Inl e, self)
      | Inr sprites_0 \<Rightarrow>
     (case layer_sprites (layer_ids st) (layers_1 self) of
        Inl e \<Rightarrow> (Inl e, self)
      | Inr sprites_1 \<Rightarrow>
     (case sprites_0 of
        [] \<Rightarrow> (Inl IndexError, self)
      | s0 # _ \<Rightarrow>
     (case sprites_1 of
        [] \<Rightarrow> (Inl IndexError, self)
      | s1 # _ \<Rightarrow>
          (let r = single_sprite_reward self (objects st s0) (position (objects st s1));
               contact = ov (objects st s0) (objects st s1);
               self1 = (if contact then self\<lparr>has_made_contact := True\<rparr> else self)
           in case steps_until_reset self1 of
                None \<Rightarrow> (Inl AttributeError, self1)
              | Some c \<Rightarrow>
                  (let c1 = (if contact \<and> is_inf c then reset_steps_after_contact self1 else c);
                       c2 = decrement c1;
                       should_reset = below_zero c2
                   in (Inr (r * (1 - of_bool should_reset), should_reset),
                       self1\<lparr>steps_until_reset := Some c2\<rparr>)))))))"

text \<open>
  The counter after a call that found \<open>c\<close> in \<^verbatim>\<open>_steps_until_reset\<close>: on contact an
  infinite counter is first set to the configured number \<open>n\<close>; then it is decremented.
\<close>

definition next_counter :: "bool \<Rightarrow> counter \<Rightarrow> counter \<Rightarrow> counter" where
  "next_counter contact n c = decrement (if contact \<and> is_inf c then n else c)"

text \<open>
  A run of the rule: the environment calls \<^verbatim>\<open>reset\<close> at the start of an episode and
  \<^verbatim>\<open>reward\<close> once per step, each time with the state of that step. An exception ends
  the run.
\<close>

fun reward_calls :: "('g sprite \<Rightarrow> 'g sprite \<Rightarrow> bool) \<Rightarrow> l2_reward \<Rightarrow> 'g env_state list \<Rightarrow> error + (real \<times> bool) list" where
  "reward_calls ov self [] = Inr []"
| "reward_calls ov self (st # sts) =
     (case reward ov self st of
        (Inl e, self') \<Rightarrow> Inl e
      | (Inr out, self') \<Rightarrow>
          (case reward_calls ov self' sts of
             Inl e \<Rightarrow> Inl e
           | Inr outs \<Rightarrow> Inr (out # outs)))"

definition run_from_reset :: "('g sprite \<Rightarrow> 'g sprite \<Rightarrow> bool) \<Rightarrow> l2_reward \<Rightarrow> 'g env_state list \<Rightarrow> error + (real \<times> bool) list" where
  "run_from_reset ov self sts = reward_calls ov (reset self) sts"

text \<open>
  The two designated sprites of a state are the first sprite of the first group of layers
  and the first sprite of the second group. A state is usable when both exist; the
  sprites are in contact when the overlap test of the sprite library holds for them.
\<close>

definition designated :: "l2_reward \<Rightarrow> 'g env_state \<Rightarrow> (nat \<times> nat) option" where
  "designated self st =
     (case (layer_sprites (layer_ids st) (layers_0 self),
            layer_sprites (layer_ids st) (layers_1 self)) of
        (Inr (s0 # _), Inr (s1 # _)) \<Rightarrow> Some (s0, s1)
      | _ \<Rightarrow> None)"

definition in_contact :: "('g sprite \<Rightarrow> 'g sprite \<Rightarrow> bool) \<Rightarrow> l2_reward \<Rightarrow> 'g env_state \<Rightarrow> bool" where
  "in_contact ov self st =
     (case designated self st of
        Some (s0, s1) \<Rightarrow> ov (objects st s0) (objects st s1)
      | None \<Rightarrow> False)"

text \<open>
  \<open>steps_elapsed n d\<close>: the configured number of steps \<open>n\<close> has elapsed after \<open>d\<close>
  calls. An infinite number of steps never has.
\<close>

fun steps_elapsed :: "counter \<Rightarrow> nat \<Rightarrow> bool" where
  "steps_elapsed (Count n) d = (n \<le> int d)"
| "steps_elapsed NpInf d = False"

text \<open>
  Call \<open>k\<close> of a run is its first contact when the sprites are in contact at call \<open>k\<close>
  and at no earlier call. \<open>first_contact_upto\<close> searches the calls \<open>0, \<dots>, i\<close>.
\<close>

fun first_true :: "bool list \<Rightarrow> nat option" where
  "first_true [] = None"
| "first_true (b # bs) = (if b then Some 0 else map_option Suc (first_true bs))"

definition first_contact_upto :: "('g sprite \<Rightarrow> 'g sprite \<Rightarrow> bool) \<Rightarrow> l2_reward \<Rightarrow> 'g env_state list \<Rightarrow> nat \<Rightarrow> nat option" where
  "first_contact_upto ov self sts i = first_true (map (in_contact ov self) (take (Suc i) sts))"

section \<open>The Gym wrapper (\<^verbatim>\<open>gym_wrapper.py\<close>)\<close>

text \<open>
  An observation is a numpy array. The wrapper tests and changes its \<^verbatim>\<open>dtype\<close>, so an
  array is its dtype and its elements. The elements of a boolean array are \<open>0\<close> and
  \<open>1\<close>; \<^verbatim>\<open>astype\<close> changes the dtype and keeps the numbers (the rounding of a cast that
  narrows is not modelled; a cast from \<^verbatim>\<open>bool\<close> is exact).
\<close>

datatype dtype = Bool | UInt8 | Int64 | Float32 | Float64

record ndarray =
  dtype :: dtype
  elems :: "real list"

definition astype :: "dtype \<Rightarrow> ndarray \<Rightarrow> ndarray" where
  "astype d a = a\<lparr>dtype := d\<rparr>"

text \<open>
  A Python value that is \<^verbatim>\<open>None\<close> or a number, with Python's truth value and
  \<^verbatim>\<open>x or y\<close>.
\<close>

datatype py_value = PyNone | PyInt int | PyFloat real

fun truthy :: "py_value \<Rightarrow> bool" where
  "truthy PyNone = False"
| "truthy (PyInt n) = (n \<noteq> 0)"
| "truthy (PyFloat x) = (x \<noteq> 0)"

definition py_or :: "py_value \<Rightarrow> py_value \<Rightarrow> py_value" where
  "py_or x y = (if truthy x then x else y)"

text \<open>
  The time step the wrapped environment returns: the observation dict (insertion-ordered,
  so a list of key-value pairs), the reward, the discount and \<^verbatim>\<open>last()\<close>.
\<close>

record time_step =
  ts_observation :: "(string \<times> ndarray) list"
  ts_reward :: py_value
  ts_discount :: py_value
  ts_last :: bool

text \<open>The attributes of the wrapper that \<^verbatim>\<open>step\<close> and \<^verbatim>\<open>reset\<close> write.\<close>

record gym_wrapper =
  last_render :: "ndarray option"
  rendered_frames :: "ndarray option list"

text \<open>What \<^verbatim>\<open>_process_obs\<close> returns: one array, or the dict.\<close>

datatype obs_value = Single ndarray | Dict "(string \<times> ndarray) list"

datatype info_value = InfoNumber py_value | InfoArray ndarray

text \<open>
  The loop of \<^verbatim>\<open>_process_obs\<close>. It assigns to existing keys of the dict it iterates, so
  the order of the keys stays; \<^verbatim>\<open>np.asarray\<close> of an array is the array.
\<close>

fun process_items :: "gym_wrapper \<Rightarrow> (string \<times> ndarray) list \<Rightarrow> (string \<times> ndarray) list \<times> gym_wrapper" where
  "process_items self [] = ([], self)"
| "process_items self ((k, v) # items) =
     (let a = (if dtype v = Bool then astype Float32 v else v);
          self1 = (if k = ''image'' then self\<lparr>last_render := Some a\<rparr> else self);
          (items', self2) = process_items self1 items
      in ((k, a) # items', self2))"

text \<open>
  \<^verbatim>\<open>_process_obs\<close>: the returned value, the dict as the loop left it (the caller's
  \<^verbatim>\<open>time_step.observation\<close> is the same object), and the wrapper.
\<close>

definition process_obs :: "gym_wrapper \<Rightarrow> (string \<times> ndarray) list \<Rightarrow> obs_value \<times> (string \<times> ndarray) list \<times> gym_wrapper" where
  "process_obs self obs =
     (let (obs', self') = process_items self obs;
          keys = map fst obs'
      in if length keys = 1 \<or> (length keys = 2 \<and> ''image'' \<in> set keys)
         then (Single (the (map_of obs' (hd keys))), obs', self')
         else (Dict obs', obs', self'))"

text \<open>
  \<^verbatim>\<open>step\<close>, given the time step that \<^verbatim>\<open>self._env.step(action)\<close> returned.
  \<^verbatim>\<open>obs.astype(np.float)\<close> casts an array to 64-bit floats and raises
  \<^verbatim>\<open>AttributeError\<close> when \<open>obs\<close> is a dict.
\<close>

definition gym_step :: "gym_wrapper \<Rightarrow> time_step \<Rightarrow> (error + obs_value \<times> py_value \<times> bool \<times> (string \<times> info_value) list) \<times> gym_wrapper" where
  "gym_step self ts =
     (let (obs, observation, self') = process_obs self (ts_observation ts);
          rew = py_or (ts_reward ts) (PyInt 0);
          finished = ts_last ts;
          keys = map fst observation;
          info0 = [(''discount'', InfoNumber (ts_discount ts))];
          info = (if ''sprite_info'' \<in> set keys
                  then info0 @ [(''sprite_info'', InfoArray (the (map_of observation ''sprite_info'')))]
                  else info0)
      in if ''image'' \<notin> set keys
         then (case obs of
                 Single a \<Rightarrow> (Inr (Single (astype Float64 a), rew, finished, info), self')
               | Dict d \<Rightarrow> (Inl AttributeError, self'))
         else (Inr (obs, rew, finished, info), self'))"

text \<open>\<^verbatim>\<open>reset\<close>, given the time step that \<^verbatim>\<open>self._env.reset()\<close> returned.\<close>

definition gym_reset :: "gym_wrapper \<Rightarrow> time_step \<Rightarrow> obs_value \<times> gym_wrapper" where
  "gym_reset self ts =
     (let self1 = self\<lparr>rendered_frames := []\<rparr>;
          (obs, observation, self2) = process_obs self1 (ts_observation ts)
      in (obs, self2))"

text \<open>
  The claim about the returned observation, in its words: the dtype coercion casts
  booleans to 32-bit floats; a dict of one key, or of two keys one of which is
  \<open>image\<close>, gives the first-listed value, any other dict gives the dict of coerced values.
\<close>

definition coerce :: "ndarray \<Rightarrow> ndarray" where
  "coerce v = (if dtype v = Bool then astype Float32 v else v)"

definition collapsed :: "(string \<times> ndarray) list \<Rightarrow> obs_value" where
  "collapsed obs =
     (if length obs = 1 \<or> (length obs = 2 \<and> ''image'' \<in> fst ` set obs)
      then Single (coerce (snd (hd obs)))
      else Dict (map (\<lambda>(k, v). (k, coerce v)) obs))"

section \<open>Example data\<close>

text \<open>
  A state with two layers: two overlapping square sprites in the layer \<open>agent\<close>, both
  containing the point \<open>(1/2, 1/2)\<close>, and a small square in the layer \<open>walls\<close> that does
  not contain it. All sprites are at rest.
\<close>

definition square_sprite :: "vec2 \<Rightarrow> real \<Rightarrow> real \<Rightarrow> real sprite" where
  "square_sprite p m r = \<lparr>position = p, velocity = (0, 0), mass = m, geom = r\<rparr>"

definition overlapping_state :: "real env_state" where
  "overlapping_state =
     \<lparr>layer_ids = [''agent'' \<mapsto> [0, 1], ''walls'' \<mapsto> [2]],
      objects = (\<lambda>i. if i = 0 then square_sprite (1/2, 1/2) 1 (1/4)
                     else if i = 1 then square_sprite (3/5, 1/2) 2 (1/4)
                     else square_sprite (0, 0) 1 (1/10))\<rparr>"

definition example_move :: select_move where
  "example_move = SelectMove (LayerNames [''agent'', ''walls'']) 1 0 NoiseNone False"

text \<open>
  Action spaces for the examples: one that overwrites the velocity, one that accumulates
  it with scale \<open>2\<close>, and one configured with a numpy vector of four standard deviations.
  \<open>single_sprite_state\<close> is a state whose layer \<open>agent\<close> holds one sprite.
\<close>

definition instant_move_example :: select_move where
  "instant_move_example = SelectMove (LayerName ''agent'') 1 0 NoiseNone True"

definition accumulating_example :: select_move where
  "accumulating_example = SelectMove (LayerName ''agent'') 2 0 NoiseNone False"

definition vector_noise_example :: select_move where
  "vector_noise_example =
     SelectMove (LayerName ''agent'') 1 0 (NoiseArray [1/10, 1/10, 1/10, 1/10]) False"

definition single_sprite_state :: "'g sprite \<Rightarrow> 'g env_state" where
  "single_sprite_state sp = \<lparr>layer_ids = [''agent'' \<mapsto> [0]], objects = (\<lambda>i. sp)\<rparr>"

text \<open>
  Examples for the reward rule. The overlap test of two square sprites; a state with one
  sprite in the layer \<open>agent\<close> and one in the layer \<open>target\<close>, at given positions and
  of half-width \<open>1/10\<close>; a state where the two are apart and one where they overlap; a
  rule over these two layers with a given number of steps after contact.
\<close>

definition squares_overlap :: "real sprite \<Rightarrow> real sprite \<Rightarrow> bool" where
  "squares_overlap a b =
     (\<bar>fst (position a) - fst (position b)\<bar> \<le> geom a + geom b \<and>
      \<bar>snd (position a) - snd (position b)\<bar> \<le> geom a + geom b)"

definition agent_target_state :: "vec2 \<Rightarrow> vec2 \<Rightarrow> real env_state" where
  "agent_target_state p q =
     \<lparr>layer_ids = [''agent'' \<mapsto> [0], ''target'' \<mapsto> [1]],
      objects = (\<lambda>i. if i = 0 then square_sprite p 1 (1/10) else square_sprite q 1 (1/10))\<rparr>"

definition apart_state :: "real env_state" where
  "apart_state = agent_target_state (1/5, 1/5) (4/5, 4/5)"

definition touching_state :: "real env_state" where
  "touching_state = agent_target_state (3/4, 3/4) (4/5, 4/5)"

definition proximity_example :: "counter \<Rightarrow> l2_reward" where
  "proximity_example n = L2Reward (LayerName ''agent'') (LayerName ''target'') n (1/20) 5"

text \<open>
  Examples for the wrapper: a wrapper as the constructor leaves it, and three time steps,
  with the observation keys \<open>success\<close> (a boolean array); \<open>image\<close> and \<open>success\<close>; and
  \<open>state\<close> and \<open>success\<close>.
\<close>

definition new_wrapper :: gym_wrapper where
  "new_wrapper = \<lparr>last_render = None, rendered_frames = []\<rparr>"

definition success_time_step :: time_step where
  "success_time_step =
     \<lparr>ts_observation = [(''success'', \<lparr>dtype = Bool, elems = [1]\<rparr>)],
      ts_reward = PyFloat 1, ts_discount = PyFloat 1, ts_last = False\<rparr>"

definition image_time_step :: time_step where
  "image_time_step =
     \<lparr>ts_observation = [(''image'', \<lparr>dtype = UInt8, elems = [0, 255, 7]\<rparr>),
                        (''success'', \<lparr>dtype = Bool, elems = [0]\<rparr>)],
      ts_reward = PyNone, ts_discount = PyFloat 1, ts_last = False\<rparr>"

definition two_key_time_step :: time_step where
  "two_key_time_step =
     \<lparr>ts_observation = [(''state'', \<lparr>dtype = Float64, elems = [1/2, 1/2]\<rparr>),
                        (''success'', \<lparr>dtype = Bool, elems = [0]\<rparr>)],
      ts_reward = PyFloat 0, ts_discount = PyFloat 1, ts_last = False\<rparr>"

section \<open>Properties of the Select-Move action space\<close>

lemma append_layer_eq: "append_layer acc ss = acc @ ss"
  by (induction ss arbitrary: acc) simp_all

lemma get_sprite_latest:
  "get_sprite_from_position cp obj pos sprites = latest_containing cp obj pos sprites"
proof (induction sprites rule: rev_induct)
  case Nil
  show ?case by (simp add: get_sprite_from_position_def latest_containing_def)
next
  case (snoc s sprites)
  then show ?case
    by (simp add: get_sprite_from_position_def latest_containing_def Let_def)
qed

lemma collect_sprites_present:
  "set ls \<subseteq> dom st \<Longrightarrow> collect_sprites st ls acc = Inr (acc @ flattened_layers st ls)"
proof (induction ls arbitrary: acc)
  case Nil
  show ?case by (simp add: flattened_layers_def)
next
  case (Cons l ls)
  from Cons.prems obtain ss where l: "st l = Some ss" by auto
  from Cons.prems have "set ls \<subseteq> dom st" by simp
  from Cons.IH [OF this, of "acc @ ss"] l show ?case
    by (simp add: flattened_layers_def append_layer_eq)
qed

lemma step_not_clicked:
  assumes "apply_noise_to_action self z act = Inr na"
    and "collect_sprites (layer_ids st) (action_layers self) [] = Inr sprites"
    and "get_sprite_from_position cp (objects st) (position_of na) sprites = None"
  shows "step cp self st z act = Inr st"
  using assms by (simp add: step_def)

lemma step_clicked:
  assumes "apply_noise_to_action self z act = Inr na"
    and "collect_sprites (layer_ids st) (action_layers self) [] = Inr sprites"
    and "get_sprite_from_position cp (objects st) (position_of na) sprites = Some c"
  shows "step cp self st z act =
    Inr (st\<lparr>objects := (objects st)(c := (objects st c)\<lparr>velocity :=
      (let delta = vmul (vdiv (vsub (target_of na) (position (objects st c))) (mass (objects st c))) (scale self)
       in if instant_move self then delta else vadd (velocity (objects st c)) delta)\<rparr>)\<rparr>)"
  using assms by (simp add: step_def Let_def get_motion_def)

lemma latest_containing_index:
  "latest_containing cp obj pos sprites = Some s \<longleftrightarrow>
     (\<exists>k<length sprites. sprites ! k = s \<and> cp (obj s) pos \<and>
        (\<forall>m. k < m \<and> m < length sprites \<longrightarrow> \<not> cp (obj (sprites ! m)) pos))"
proof (induction sprites rule: rev_induct)
  case Nil
  show ?case by (simp add: latest_containing_def)
next
  case (snoc x xs)
  show ?case
  proof (cases "cp (obj x) pos")
    case True
    have l: "latest_containing cp obj pos (xs @ [x]) = Some x"
      using True by (simp add: latest_containing_def)
    show ?thesis
    proof
      assume "latest_containing cp obj pos (xs @ [x]) = Some s"
      with l have "s = x" by simp
      with True show "\<exists>k<length (xs @ [x]). (xs @ [x]) ! k = s \<and> cp (obj s) pos \<and>
        (\<forall>m. k < m \<and> m < length (xs @ [x]) \<longrightarrow> \<not> cp (obj ((xs @ [x]) ! m)) pos)"
        by (intro exI [of _ "length xs"]) auto
    next
      assume "\<exists>k<length (xs @ [x]). (xs @ [x]) ! k = s \<and> cp (obj s) pos \<and>
        (\<forall>m. k < m \<and> m < length (xs @ [x]) \<longrightarrow> \<not> cp (obj ((xs @ [x]) ! m)) pos)"
      then obtain k where k: "k < length (xs @ [x])" "(xs @ [x]) ! k = s"
        and later: "\<forall>m. k < m \<and> m < length (xs @ [x]) \<longrightarrow> \<not> cp (obj ((xs @ [x]) ! m)) pos"
        by blast
      have "\<not> k < length xs"
      proof
        assume "k < length xs"
        with spec [OF later, of "length xs"]
        have "\<not> cp (obj ((xs @ [x]) ! length xs)) pos" by simp
        with True show False by simp
      qed
      with k have "s = x" by (simp add: nth_append)
      with l show "latest_containing cp obj pos (xs @ [x]) = Some s" by simp
    qed
  next
    case False
    have l: "latest_containing cp obj pos (xs @ [x]) = latest_containing cp obj pos xs"
      using False by (simp add: latest_containing_def)
    show ?thesis
    proof
      assume "latest_containing cp obj pos (xs @ [x]) = Some s"
      with l snoc.IH obtain k where k: "k < length xs" "xs ! k = s" "cp (obj s) pos"
        and later: "\<forall>m. k < m \<and> m < length xs \<longrightarrow> \<not> cp (obj (xs ! m)) pos"
        by auto
      have "\<forall>m. k < m \<and> m < length (xs @ [x]) \<longrightarrow> \<not> cp (obj ((xs @ [x]) ! m)) pos"
        using later False by (auto simp: nth_append less_Suc_eq)
      with k show "\<exists>k<length (xs @ [x]). (xs @ [x]) ! k = s \<and> cp (obj s) pos \<and>
        (\<forall>m. k < m \<and> m < length (xs @ [x]) \<longrightarrow> \<not> cp (obj ((xs @ [x]) ! m)) pos)"
        by (intro exI [of _ k]) (simp add: nth_append)
    next
      assume "\<exists>k<length (xs @ [x]). (xs @ [x]) ! k = s \<and> cp (obj s) pos \<and>
        (\<forall>m. k < m \<and> m < length (xs @ [x]) \<longrightarrow> \<not> cp (obj ((xs @ [x]) ! m)) pos)"
      then obtain k where k: "k < length (xs @ [x])" "(xs @ [x]) ! k = s" "cp (obj s) pos"
        and later: "\<forall>m. k < m \<and> m < length (xs @ [x]) \<longrightarrow> \<not> cp (obj ((xs @ [x]) ! m)) pos"
        by blast
      have kx: "k < length xs"
      proof (rule ccontr)
        assume "\<not> k < length xs"
        with k have "s = x" by (simp add: nth_append)
        with k False show False by simp
      qed
      have "\<forall>m. k < m \<and> m < length xs \<longrightarrow> \<not> cp (obj (xs ! m)) pos"
      proof (intro allI impI)
        fix m assume m: "k < m \<and> m < length xs"
        with spec [OF later, of m] show "\<not> cp (obj (xs ! m)) pos"
          by (simp add: nth_append)
      qed
      with k kx have "\<exists>k<length xs. xs ! k = s \<and> cp (obj s) pos \<and>
        (\<forall>m. k < m \<and> m < length xs \<longrightarrow> \<not> cp (obj (xs ! m)) pos)"
        by (intro exI [of _ k]) (simp add: nth_append)
      with l snoc.IH show "latest_containing cp obj pos (xs @ [x]) = Some s" by simp
    qed
  qed
qed

lemma get_sprite_none:
  "get_sprite_from_position cp obj pos sprites = None \<longleftrightarrow> (\<forall>s\<in>set sprites. \<not> cp (obj s) pos)"
  by (simp add: get_sprite_latest latest_containing_def Let_def filter_empty_conv)


lemma example_noise:
  "apply_noise_to_action example_move (0, 0, 0, 0) a = Inr a"
  by (simp add: apply_noise_to_action_def example_move_def SelectMove_def)

lemma example_contains:
  "square_contains (objects overlapping_state 0) (1/2, 1/2)"
  "square_contains (objects overlapping_state 1) (1/2, 1/2)"
  "\<not> square_contains (objects overlapping_state 2) (1/2, 1/2)"
  by (simp_all add: overlapping_state_def square_contains_def square_sprite_def)


subsection \<open>The selected sprite\<close>



lemma no_noise: "noise_scale self = NoiseNone \<Longrightarrow> apply_noise_to_action self z act = Inr act"
  by (simp add: apply_noise_to_action_def)

lemma step_layers: "step cp self st z act = Inr st' \<Longrightarrow> layer_ids st' = layer_ids st"
  by (auto simp: step_def Let_def split: sum.splits option.splits if_splits)

lemma step_others:
  "step cp self st z act = Inr st' \<Longrightarrow> \<exists>c. \<forall>i. i \<noteq> c \<longrightarrow> objects st' i = objects st i"
  by (auto simp: step_def Let_def split: sum.splits option.splits if_splits)

lemma step_fields:
  "step cp self st z act = Inr st' \<Longrightarrow>
     position (objects st' i) = position (objects st i) \<and>
     mass (objects st' i) = mass (objects st i) \<and>
     geom (objects st' i) = geom (objects st i)"
  by (auto simp: step_def Let_def split: sum.splits option.splits if_splits)

lemma latest_index_selected:
  assumes "k < length sprites" and "sprites ! k = s" and "cp (obj s) pos"
    and "\<forall>m. k < m \<and> m < length sprites \<longrightarrow> \<not> cp (obj (sprites ! m)) pos"
  shows "get_sprite_from_position cp obj pos sprites = Some s"
  unfolding get_sprite_latest latest_containing_index using assms by blast

lemma example_missed:
  "\<not> square_contains (objects overlapping_state 0) (9/10, 9/10)"
  "\<not> square_contains (objects overlapping_state 1) (9/10, 9/10)"
  "\<not> square_contains (objects overlapping_state 2) (9/10, 9/10)"
  by (simp_all add: overlapping_state_def square_contains_def square_sprite_def)

lemma example_agent_layer:
  "flattened_layers (layer_ids overlapping_state) (action_layers instant_move_example) = [0, 1]"
  by (simp add: flattened_layers_def overlapping_state_def instant_move_example_def SelectMove_def)

lemma example_accumulating:
  "noise_scale accumulating_example = NoiseNone" "\<not> instant_move accumulating_example"
  "scale accumulating_example = 2"
  "action_layers accumulating_example = [''agent'']"
  by (simp_all add: accumulating_example_def SelectMove_def)

lemma example_agent_flat:
  "layer_ids st = layer_ids overlapping_state \<Longrightarrow> flattened_layers (layer_ids st) [''agent''] = [0, 1]"
  by (simp add: flattened_layers_def overlapping_state_def)

lemma square_contains_fields:
  "position a = position b \<Longrightarrow> geom a = geom b \<Longrightarrow> square_contains a p = square_contains b p"
  by (simp add: square_contains_def)

subsection \<open>At most one velocity is written\<close>

text \<open>
  Claim C2. If the (possibly noised) selection position is contained by no sprite of the
  configured layers, \<^verbatim>\<open>step\<close> returns and the state is the one it was given. After every
  call, returned or raised, the layers hold the same sprites as before (none created, none
  destroyed), at most one sprite differs from what it was, and the position, the mass and
  the shape of every sprite are unchanged, so the only change is the velocity of at most
  one sprite.
\<close>

theorem step_changes_at_most_one_velocity:
  "(\<forall>na sprites.
      apply_noise_to_action self z act = Inr na \<and>
      collect_sprites (layer_ids st) (action_layers self) [] = Inr sprites \<and>
      (\<forall>s\<in>set sprites. \<not> cp (objects st s) (position_of na)) \<longrightarrow>
      step cp self st z act = Inr st) \<and>
   layer_ids (state_after st (step cp self st z act)) = layer_ids st \<and>
   (\<exists>c. \<forall>i. i \<noteq> c \<longrightarrow> objects (state_after st (step cp self st z act)) i = objects st i) \<and>
   (\<forall>i. position (objects (state_after st (step cp self st z act)) i) = position (objects st i) \<and>
        mass (objects (state_after st (step cp self st z act)) i) = mass (objects st i) \<and>
        geom (objects (state_after st (step cp self st z act)) i) = geom (objects st i))"
proof (intro conjI allI impI)
  fix na sprites
  assume h: "apply_noise_to_action self z act = Inr na \<and>
      collect_sprites (layer_ids st) (action_layers self) [] = Inr sprites \<and>
      (\<forall>s\<in>set sprites. \<not> cp (objects st s) (position_of na))"
  then have "get_sprite_from_position cp (objects st) (position_of na) sprites = None"
    by (simp add: get_sprite_none)
  with h show "step cp self st z act = Inr st"
    by (simp add: step_not_clicked)
next
  show "layer_ids (state_after st (step cp self st z act)) = layer_ids st"
    by (cases "step cp self st z act") (simp_all add: state_after_def step_layers)
next
  show "\<exists>c. \<forall>i. i \<noteq> c \<longrightarrow> objects (state_after st (step cp self st z act)) i = objects st i"
    by (cases "step cp self st z act") (simp_all add: state_after_def step_others)
next
  fix i
  show "position (objects (state_after st (step cp self st z act)) i) = position (objects st i)"
    "mass (objects (state_after st (step cp self st z act)) i) = mass (objects st i)"
    "geom (objects (state_after st (step cp self st z act)) i) = geom (objects st i)"
    by (cases "step cp self st z act"; simp add: state_after_def step_fields)+
qed

theorem step_changes_at_most_one_velocity_witness:
  "apply_noise_to_action example_move (0, 0, 0, 0) (9/10, 9/10, 1/2, 1) = Inr (9/10, 9/10, 1/2, 1) \<and>
   collect_sprites (layer_ids overlapping_state) (action_layers example_move) [] = Inr [0, 1, 2] \<and>
   \<not> square_contains (objects overlapping_state 0) (9/10, 9/10) \<and>
   \<not> square_contains (objects overlapping_state 1) (9/10, 9/10) \<and>
   \<not> square_contains (objects overlapping_state 2) (9/10, 9/10) \<and>
   step square_contains example_move overlapping_state (0, 0, 0, 0) (9/10, 9/10, 1/2, 1) =
     Inr overlapping_state"
proof -
  have n: "apply_noise_to_action example_move (0, 0, 0, 0) (9/10, 9/10, 1/2, 1) = Inr (9/10, 9/10, 1/2, 1)"
    by (rule example_noise)
  have c: "collect_sprites (layer_ids overlapping_state) (action_layers example_move) [] = Inr [0, 1, 2]"
    by (simp add: example_move_def SelectMove_def overlapping_state_def)
  have m: "\<forall>s\<in>set [0, 1, 2]. \<not> square_contains (objects overlapping_state s) (position_of (9/10, 9/10, 1/2, 1))"
    using example_missed by simp
  from step_changes_at_most_one_velocity
    [of example_move "(0, 0, 0, 0)" "(9/10, 9/10, 1/2, 1)" overlapping_state square_contains]
  have "step square_contains example_move overlapping_state (0, 0, 0, 0) (9/10, 9/10, 1/2, 1) =
     Inr overlapping_state"
    using n c m by blast
  with n c example_missed show ?thesis by simp
qed

subsection \<open>Instant move\<close>

text \<open>
  Claim C1, as amended. Without noise and with \<^verbatim>\<open>instant_move=True\<close>, for every scale: if
  the selection position \<open>(x, y)\<close> is contained in the sprite \<open>s\<close> standing at index
  \<open>k\<close> of the flattened layers and in no sprite at a later index, and the mass of \<open>s\<close>
  is not zero, then \<^verbatim>\<open>step\<close> returns and the velocity of \<open>s\<close> is
  \<open>(t - p) / m * scale\<close>, for the target \<open>t = (tx, ty)\<close>, the position \<open>p\<close> and the
  mass \<open>m\<close> of \<open>s\<close>. In particular, with the layers \<open>["agent"]\<close>, one sprite at
  \<open>(0.5, 0.5)\<close> of mass \<open>1\<close> that contains its own position, and the action
  \<open>[0.5, 0.5, 0.5, 1.0]\<close>, the velocity becomes \<open>(0.0, 0.5) * scale\<close>.
\<close>

theorem instant_move_sets_velocity:
  "(noise_scale self = NoiseNone \<and> instant_move self \<and>
        set (action_layers self) \<subseteq> dom (layer_ids st) \<and>
        k < length (flattened_layers (layer_ids st) (action_layers self)) \<and>
        flattened_layers (layer_ids st) (action_layers self) ! k = s \<and>
        cp (objects st s) (x, y) \<and>
        (\<forall>m. k < m \<and> m < length (flattened_layers (layer_ids st) (action_layers self)) \<longrightarrow>
           \<not> cp (objects st (flattened_layers (layer_ids st) (action_layers self) ! m)) (x, y)) \<and>
        mass (objects st s) \<noteq> 0 \<longrightarrow>
      (\<exists>st'. step cp self st z (x, y, tx, ty) = Inr st' \<and>
         velocity (objects st' s) =
           ((tx - fst (position (objects st s))) / mass (objects st s) * scale self,
            (ty - snd (position (objects st s))) / mass (objects st s) * scale self))) \<and>
   (position sp = (1/2, 1/2) \<and> mass sp = 1 \<and> cp sp (1/2, 1/2) \<longrightarrow>
      (\<exists>st'. step cp (SelectMove (LayerNames [''agent'']) sc mc NoiseNone True)
                (single_sprite_state sp) z (1/2, 1/2, 1/2, 1) = Inr st' \<and>
         velocity (objects st' 0) = (0 * sc, 1/2 * sc)))"
proof (intro conjI impI)
  assume h: "noise_scale self = NoiseNone \<and> instant_move self \<and>
        set (action_layers self) \<subseteq> dom (layer_ids st) \<and>
        k < length (flattened_layers (layer_ids st) (action_layers self)) \<and>
        flattened_layers (layer_ids st) (action_layers self) ! k = s \<and>
        cp (objects st s) (x, y) \<and>
        (\<forall>m. k < m \<and> m < length (flattened_layers (layer_ids st) (action_layers self)) \<longrightarrow>
           \<not> cp (objects st (flattened_layers (layer_ids st) (action_layers self) ! m)) (x, y)) \<and>
        mass (objects st s) \<noteq> 0"
  let ?flat = "flattened_layers (layer_ids st) (action_layers self)"
  from h have n: "apply_noise_to_action self z (x, y, tx, ty) = Inr (x, y, tx, ty)"
    by (simp add: no_noise)
  from h have c: "collect_sprites (layer_ids st) (action_layers self) [] = Inr ?flat"
    using collect_sprites_present [of "action_layers self" "layer_ids st" "[]"] by simp
  from h have g: "get_sprite_from_position cp (objects st) (position_of (x, y, tx, ty)) ?flat = Some s"
    by (intro latest_index_selected [of k]) simp_all
  from step_clicked [OF n c g] h
  show "\<exists>st'. step cp self st z (x, y, tx, ty) = Inr st' \<and>
         velocity (objects st' s) =
           ((tx - fst (position (objects st s))) / mass (objects st s) * scale self,
            (ty - snd (position (objects st s))) / mass (objects st s) * scale self)"
    by (simp add: vmul_def vdiv_def vsub_def)
next
  assume h: "position sp = (1/2, 1/2) \<and> mass sp = 1 \<and> cp sp (1/2, 1/2)"
  let ?self = "SelectMove (LayerNames [''agent'']) sc mc NoiseNone True"
  have n: "apply_noise_to_action ?self z (1/2, 1/2, 1/2, 1) = Inr (1/2, 1/2, 1/2, 1)"
    by (simp add: no_noise SelectMove_def)
  have c: "collect_sprites (layer_ids (single_sprite_state sp)) (action_layers ?self) [] = Inr [0]"
    by (simp add: SelectMove_def single_sprite_state_def)
  from h have g: "get_sprite_from_position cp (objects (single_sprite_state sp))
      (position_of (1/2, 1/2, 1/2, 1)) [0] = Some 0"
    by (simp add: get_sprite_from_position_def single_sprite_state_def)
  from step_clicked [OF n c g] h
  show "\<exists>st'. step cp ?self (single_sprite_state sp) z (1/2, 1/2, 1/2, 1) = Inr st' \<and>
         velocity (objects st' 0) = (0 * sc, 1/2 * sc)"
    by (simp add: vmul_def vdiv_def vsub_def SelectMove_def single_sprite_state_def)
qed

text \<open>
  The theorem at the two overlapping sprites: the click at \<open>(1/2, 1/2)\<close> is in both, the
  later one (sprite \<open>1\<close>, at \<open>(3/5, 1/2)\<close>, mass \<open>2\<close>) is selected.
\<close>

theorem instant_move_sets_velocity_witness:
  "noise_scale instant_move_example = NoiseNone \<and> instant_move instant_move_example \<and>
   set (action_layers instant_move_example) \<subseteq> dom (layer_ids overlapping_state) \<and>
   flattened_layers (layer_ids overlapping_state) (action_layers instant_move_example) = [0, 1] \<and>
   square_contains (objects overlapping_state 1) (1/2, 1/2) \<and>
   mass (objects overlapping_state 1) = 2 \<and>
   position (objects overlapping_state 1) = (3/5, 1/2) \<and>
   (\<exists>st'. step square_contains instant_move_example overlapping_state (0, 0, 0, 0) (1/2, 1/2, 1/2, 1) = Inr st' \<and>
      velocity (objects st' 1) = (- (1/20), 1/4))"
proof -
  have a: "noise_scale instant_move_example = NoiseNone" "instant_move instant_move_example"
    "scale instant_move_example = 1"
    "set (action_layers instant_move_example) \<subseteq> dom (layer_ids overlapping_state)"
    by (simp_all add: instant_move_example_def SelectMove_def overlapping_state_def)
  have b: "mass (objects overlapping_state 1) = 2" "position (objects overlapping_state 1) = (3/5, 1/2)"
    by (simp_all add: overlapping_state_def square_sprite_def)
  have k: "(1::nat) < length [0::nat, 1]" "[0::nat, 1] ! 1 = 1"
    "\<forall>m. 1 < m \<and> m < length [0::nat, 1] \<longrightarrow>
       \<not> square_contains (objects overlapping_state ([0, 1] ! m)) (1/2, 1/2)"
    by auto
  note inst = instant_move_sets_velocity
    [where self = instant_move_example and st = overlapping_state and k = 1 and s = 1
       and cp = square_contains and x = "1/2" and y = "1/2" and z = "(0, 0, 0, 0)"
       and tx = "1/2" and ty = 1, THEN conjunct1, unfolded example_agent_layer]
  have "\<exists>st'. step square_contains instant_move_example overlapping_state (0, 0, 0, 0) (1/2, 1/2, 1/2, 1) = Inr st' \<and>
      velocity (objects st' 1) =
        ((1/2 - fst (position (objects overlapping_state 1))) / mass (objects overlapping_state 1)
            * scale instant_move_example,
         (1 - snd (position (objects overlapping_state 1))) / mass (objects overlapping_state 1)
            * scale instant_move_example)"
    using a b k example_contains(2) by (intro inst [THEN mp]) simp
  then have "\<exists>st'. step square_contains instant_move_example overlapping_state (0, 0, 0, 0) (1/2, 1/2, 1/2, 1) = Inr st' \<and>
      velocity (objects st' 1) = (- (1/20), 1/4)"
    using a b by simp
  with a b example_contains(2) example_agent_layer show ?thesis by simp
qed

text \<open>
  The claim as written asks only that the selection position be contained in the sprite.
  With the two overlapping sprites that is not enough: the click is contained in sprite
  \<open>0\<close>, the reverse scan selects sprite \<open>1\<close>, and the velocity of sprite \<open>0\<close> stays
  \<open>(0, 0)\<close> instead of becoming \<open>(t - p) / m * scale = (0, 1/2)\<close>.
\<close>

theorem lower_sprite_keeps_velocity:
  "noise_scale instant_move_example = NoiseNone \<and> instant_move instant_move_example \<and>
   square_contains (objects overlapping_state 0) (position_of (1/2, 1/2, 1/2, 1)) \<and>
   (\<exists>st'. step square_contains instant_move_example overlapping_state (0, 0, 0, 0) (1/2, 1/2, 1/2, 1) = Inr st' \<and>
      velocity (objects st' 0) = (0, 0) \<and>
      velocity (objects st' 0) \<noteq>
        ((1/2 - fst (position (objects overlapping_state 0))) / mass (objects overlapping_state 0)
            * scale instant_move_example,
         (1 - snd (position (objects overlapping_state 0))) / mass (objects overlapping_state 0)
            * scale instant_move_example))"
  by (simp add: step_def instant_move_example_def SelectMove_def apply_noise_to_action_def
      overlapping_state_def get_sprite_from_position_def square_contains_def square_sprite_def
      Let_def get_motion_def vmul_def vdiv_def vsub_def)

subsection \<open>Accumulating moves\<close>

text \<open>
  Claim C4. Without noise and with \<^verbatim>\<open>instant_move=False\<close>: if the first action selects
  the sprite \<open>s\<close>, of non-zero mass, the first step returns a state \<open>st1\<close>; if the second action selects
  \<open>s\<close> in \<open>st1\<close>, the second step returns, and the velocity of \<open>s\<close> is then its
  velocity before the first click plus the first contribution plus the second one, where
  contribution \<open>i\<close> is \<open>(t\<^sub>i - p\<^sub>i) / m * scale\<close> with \<open>p\<^sub>i\<close> the position of \<open>s\<close> at
  click \<open>i\<close>. The sum is taken in the order the code adds: first the first contribution.
\<close>

theorem two_clicks_accumulate:
  "noise_scale self = NoiseNone \<and> \<not> instant_move self \<and>
   set (action_layers self) \<subseteq> dom (layer_ids st) \<and>
   get_sprite_from_position cp (objects st) (position_of a1)
     (flattened_layers (layer_ids st) (action_layers self)) = Some s \<and>
   mass (objects st s) \<noteq> 0 \<longrightarrow>
   (\<exists>st1. step cp self st z1 a1 = Inr st1 \<and>
      (get_sprite_from_position cp (objects st1) (position_of a2)
         (flattened_layers (layer_ids st1) (action_layers self)) = Some s \<longrightarrow>
       (\<exists>st2. step cp self st1 z2 a2 = Inr st2 \<and>
          velocity (objects st2 s) =
            vadd (vadd (velocity (objects st s))
                   (vmul (vdiv (vsub (target_of a1) (position (objects st s)))
                            (mass (objects st s))) (scale self)))
                 (vmul (vdiv (vsub (target_of a2) (position (objects st1 s)))
                          (mass (objects st s))) (scale self)))))"
proof (intro impI)
  assume h: "noise_scale self = NoiseNone \<and> \<not> instant_move self \<and>
   set (action_layers self) \<subseteq> dom (layer_ids st) \<and>
   get_sprite_from_position cp (objects st) (position_of a1)
     (flattened_layers (layer_ids st) (action_layers self)) = Some s \<and>
   mass (objects st s) \<noteq> 0"
  let ?flat = "flattened_layers (layer_ids st) (action_layers self)"
  let ?c1 = "vmul (vdiv (vsub (target_of a1) (position (objects st s))) (mass (objects st s))) (scale self)"
  let ?st1 = "st\<lparr>objects := (objects st)(s := (objects st s)\<lparr>velocity := vadd (velocity (objects st s)) ?c1\<rparr>)\<rparr>"
  from h have n: "\<And>z a. apply_noise_to_action self z a = Inr a"
    by (simp add: no_noise)
  from h have c: "collect_sprites (layer_ids st) (action_layers self) [] = Inr ?flat"
    using collect_sprites_present [of "action_layers self" "layer_ids st" "[]"] by simp
  from h have g: "get_sprite_from_position cp (objects st) (position_of a1) ?flat = Some s"
    by simp
  from step_clicked [OF n c g] h have s1: "step cp self st z1 a1 = Inr ?st1"
    by (simp add: Let_def)
  have second: "\<exists>st2. step cp self ?st1 z2 a2 = Inr st2 \<and>
          velocity (objects st2 s) =
            vadd (vadd (velocity (objects st s)) ?c1)
                 (vmul (vdiv (vsub (target_of a2) (position (objects ?st1 s)))
                          (mass (objects st s))) (scale self))"
    if g2: "get_sprite_from_position cp (objects ?st1) (position_of a2)
         (flattened_layers (layer_ids ?st1) (action_layers self)) = Some s"
  proof -
    have c2: "collect_sprites (layer_ids ?st1) (action_layers self) [] =
        Inr (flattened_layers (layer_ids ?st1) (action_layers self))"
      using c by simp
    from step_clicked [OF n c2 g2] h show ?thesis
      by (simp add: Let_def)
  qed
  from s1 second show "\<exists>st1. step cp self st z1 a1 = Inr st1 \<and>
      (get_sprite_from_position cp (objects st1) (position_of a2)
         (flattened_layers (layer_ids st1) (action_layers self)) = Some s \<longrightarrow>
       (\<exists>st2. step cp self st1 z2 a2 = Inr st2 \<and>
          velocity (objects st2 s) =
            vadd (vadd (velocity (objects st s)) ?c1)
                 (vmul (vdiv (vsub (target_of a2) (position (objects st1 s)))
                          (mass (objects st s))) (scale self))))"
    by blast
qed

theorem two_clicks_accumulate_witness:
  "noise_scale accumulating_example = NoiseNone \<and> \<not> instant_move accumulating_example \<and>
   set (action_layers accumulating_example) \<subseteq> dom (layer_ids overlapping_state) \<and>
   get_sprite_from_position square_contains (objects overlapping_state) (1/2, 1/2) [0, 1] = Some 1 \<and>
   mass (objects overlapping_state 1) = 2 \<and>
   (\<exists>st1 st2.
      step square_contains accumulating_example overlapping_state (0, 0, 0, 0) (1/2, 1/2, 1/2, 1) = Inr st1 \<and>
      get_sprite_from_position square_contains (objects st1) (1/2, 1/2) [0, 1] = Some 1 \<and>
      step square_contains accumulating_example st1 (0, 0, 0, 0) (1/2, 1/2, 1, 1/2) = Inr st2 \<and>
      velocity (objects st2 1) = (3/10, 1/2))"
proof -
  let ?a1 = "(1/2, 1/2, 1/2, 1) :: action" and ?a2 = "(1/2, 1/2, 1, 1/2) :: action"
  have p: "set (action_layers accumulating_example) \<subseteq> dom (layer_ids overlapping_state)"
    by (simp add: example_accumulating overlapping_state_def)
  have g: "get_sprite_from_position square_contains (objects overlapping_state) (1/2, 1/2) [0, 1] = Some 1"
    by (simp add: get_sprite_from_position_def overlapping_state_def square_contains_def
        square_sprite_def)
  have g1: "get_sprite_from_position square_contains (objects overlapping_state) (position_of ?a1)
     (flattened_layers (layer_ids overlapping_state) (action_layers accumulating_example)) = Some 1"
    using g by (simp add: example_accumulating example_agent_flat)
  have m: "mass (objects overlapping_state 1) = 2"
    by (simp add: overlapping_state_def square_sprite_def)
  then have m0: "mass (objects overlapping_state 1) \<noteq> 0" by simp
  from two_clicks_accumulate
    [where self = accumulating_example and st = overlapping_state and cp = square_contains
       and ?a1.0 = ?a1 and ?a2.0 = ?a2 and s = 1 and ?z1.0 = "(0, 0, 0, 0)" and ?z2.0 = "(0, 0, 0, 0)",
     THEN mp]
    example_accumulating p g1 m0
  obtain st1 where s1: "step square_contains accumulating_example overlapping_state (0, 0, 0, 0) ?a1 = Inr st1"
    and rest: "get_sprite_from_position square_contains (objects st1) (position_of ?a2)
         (flattened_layers (layer_ids st1) (action_layers accumulating_example)) = Some 1 \<longrightarrow>
       (\<exists>st2. step square_contains accumulating_example st1 (0, 0, 0, 0) ?a2 = Inr st2 \<and>
          velocity (objects st2 1) =
            vadd (vadd (velocity (objects overlapping_state 1))
                   (vmul (vdiv (vsub (target_of ?a1) (position (objects overlapping_state 1)))
                            (mass (objects overlapping_state 1))) (scale accumulating_example)))
                 (vmul (vdiv (vsub (target_of ?a2) (position (objects st1 1)))
                          (mass (objects overlapping_state 1))) (scale accumulating_example)))"
    by blast
  have l1: "layer_ids st1 = layer_ids overlapping_state"
    by (rule step_layers [OF s1])
  have f1: "\<And>i. position (objects st1 i) = position (objects overlapping_state i)"
    "\<And>i. geom (objects st1 i) = geom (objects overlapping_state i)"
    using step_fields [OF s1] by simp_all
  have same: "\<And>i p. square_contains (objects st1 i) p = square_contains (objects overlapping_state i) p"
    by (rule square_contains_fields) (simp_all add: f1)
  have "get_sprite_from_position square_contains (objects st1) (1/2, 1/2) [0, 1] =
      get_sprite_from_position square_contains (objects overlapping_state) (1/2, 1/2) [0, 1]"
    by (simp add: get_sprite_from_position_def same)
  with g have g2: "get_sprite_from_position square_contains (objects st1) (1/2, 1/2) [0, 1] = Some 1"
    by simp
  then have "get_sprite_from_position square_contains (objects st1) (position_of ?a2)
         (flattened_layers (layer_ids st1) (action_layers accumulating_example)) = Some 1"
    by (simp add: example_accumulating example_agent_flat l1)
  with rest obtain st2 where s2: "step square_contains accumulating_example st1 (0, 0, 0, 0) ?a2 = Inr st2"
    and v: "velocity (objects st2 1) =
            vadd (vadd (velocity (objects overlapping_state 1))
                   (vmul (vdiv (vsub (target_of ?a1) (position (objects overlapping_state 1)))
                            (mass (objects overlapping_state 1))) (scale accumulating_example)))
                 (vmul (vdiv (vsub (target_of ?a2) (position (objects st1 1)))
                          (mass (objects overlapping_state 1))) (scale accumulating_example))"
    by blast
  have "velocity (objects st2 1) = (3/10, 1/2)"
    unfolding v f1 by (simp add: example_accumulating overlapping_state_def square_sprite_def
        vadd_def vmul_def vdiv_def vsub_def)
  with s1 s2 g2 example_accumulating p g m show ?thesis by blast
qed

subsection \<open>Noise given as a numpy vector\<close>

text \<open>
  Claim C5 fails on the code. The constructor documents a vector \<^verbatim>\<open>noise_scale\<close> of the
  shape of the action. With the numpy array \<open>[0.1, 0.1, 0.1, 0.1]\<close> the test
  \<^verbatim>\<open>if self._noise_scale:\<close> of \<^verbatim>\<open>apply_noise_to_action\<close> raises \<^verbatim>\<open>ValueError\<close>, for
  every action, every draw and every state: no noise is added and \<^verbatim>\<open>step\<close> does not
  complete.
\<close>

theorem vector_noise_array_raises:
  "apply_noise_to_action vector_noise_example z act = Inl ValueError \<and>
   step cp vector_noise_example st z act = Inl ValueError"
  by (simp add: step_def apply_noise_to_action_def vector_noise_example_def SelectMove_def)

text \<open>
  A positive scalar and a Python list of four non-negative values are accepted: the noise
  \<open>s * z\<close> is added to each component, and the sum is not clamped to \<open>[0, 1]\<close>.
\<close>

lemma scalar_noise_is_added:
  "0 < x \<Longrightarrow> noise_scale self = NoiseScalar x \<Longrightarrow>
     apply_noise_to_action self (z1, z2, z3, z4) (a, b, c, d) =
       Inr (a + x * z1, b + x * z2, c + x * z3, d + x * z4)"
  by (simp add: apply_noise_to_action_def)

lemma list_noise_is_added:
  "0 \<le> s1 \<Longrightarrow> 0 \<le> s2 \<Longrightarrow> 0 \<le> s3 \<Longrightarrow> 0 \<le> s4 \<Longrightarrow>
   noise_scale self = NoiseList [s1, s2, s3, s4] \<Longrightarrow>
     apply_noise_to_action self (z1, z2, z3, z4) (a, b, c, d) =
       Inr (a + s1 * z1, b + s2 * z2, c + s3 * z3, d + s4 * z4)"
  by (simp add: apply_noise_to_action_def)

section \<open>Properties of the proximity reward rule\<close>

lemma designated_cong:
  "layers_0 a = layers_0 b \<Longrightarrow> layers_1 a = layers_1 b \<Longrightarrow> designated a st = designated b st"
  by (simp add: designated_def)

lemma in_contact_cong:
  "layers_0 a = layers_0 b \<Longrightarrow> layers_1 a = layers_1 b \<Longrightarrow> in_contact ov a st = in_contact ov b st"
  by (simp add: in_contact_def designated_def)

lemma reward_returns:
  assumes d: "designated self st \<noteq> None" and c: "steps_until_reset self = Some c"
  shows "\<exists>r self'. reward ov self st =
           (Inr (r, below_zero (next_counter (in_contact ov self st) (reset_steps_after_contact self) c)), self') \<and>
         steps_until_reset self' =
           Some (next_counter (in_contact ov self st) (reset_steps_after_contact self) c) \<and>
         layers_0 self' = layers_0 self \<and> layers_1 self' = layers_1 self \<and>
         reset_steps_after_contact self' = reset_steps_after_contact self"
proof -
  from d obtain s0 s1 where "designated self st = Some (s0, s1)" by auto
  then obtain r0 r1 where l: "layer_sprites (layer_ids st) (layers_0 self) = Inr (s0 # r0)"
      "layer_sprites (layer_ids st) (layers_1 self) = Inr (s1 # r1)"
    by (auto simp: designated_def split: sum.splits list.splits)
  then have ic: "in_contact ov self st = ov (objects st s0) (objects st s1)"
    by (simp add: in_contact_def designated_def)
  show ?thesis
    using l c by (simp add: reward_def ic Let_def next_counter_def)
qed

lemma reward_raises:
  "designated self st = None \<Longrightarrow> \<exists>e self'. reward ov self st = (Inl e, self')"
  by (auto simp: reward_def designated_def split: sum.splits list.splits)

lemma finite_counter_run:
  assumes "steps_until_reset self = Some (Count m)"
    and "\<forall>st\<in>set sts. designated self st \<noteq> None"
  shows "\<exists>outs. reward_calls ov self sts = Inr outs \<and> length outs = length sts \<and>
           (\<forall>i<length sts. snd (outs ! i) = (m \<le> int i))"
  using assms
proof (induction sts arbitrary: self m)
  case Nil
  show ?case by simp
next
  case (Cons st sts)
  from Cons.prems have d: "designated self st \<noteq> None" by simp
  from reward_returns [OF d Cons.prems(1), of ov]
  obtain r self' where r: "reward ov self st = (Inr (r, m - 1 < 0), self')"
    and c': "steps_until_reset self' = Some (Count (m - 1))"
    and l: "layers_0 self' = layers_0 self" "layers_1 self' = layers_1 self"
    by (auto simp: next_counter_def)
  from Cons.prems l have "\<forall>st\<in>set sts. designated self' st \<noteq> None"
    by (simp add: designated_cong [of self' self])
  from Cons.IH [OF c' this]
  obtain outs where o: "reward_calls ov self' sts = Inr outs" "length outs = length sts"
    "\<forall>i<length sts. snd (outs ! i) = (m - 1 \<le> int i)"
    by blast
  have "\<forall>i<length (st # sts). snd (((r, m - 1 < 0) # outs) ! i) = (m \<le> int i)"
  proof (intro allI impI)
    fix i assume "i < length (st # sts)"
    with o(3) show "snd (((r, m - 1 < 0) # outs) ! i) = (m \<le> int i)"
      by (cases i) auto
  qed
  with r o show ?case by simp
qed

lemma first_true_Some:
  "first_true bs = Some k \<longleftrightarrow> k < length bs \<and> bs ! k \<and> (\<forall>j<k. \<not> bs ! j)"
proof (induction bs arbitrary: k)
  case Nil
  show ?case by simp
next
  case (Cons b bs)
  show ?case
  proof (cases b)
    case True
    then show ?thesis by (cases k) auto
  next
    case False
    show ?thesis
    proof (cases k)
      case 0
      with False show ?thesis by simp
    next
      case (Suc k')
      have "(\<forall>j<Suc k'. \<not> (b # bs) ! j) \<longleftrightarrow> (\<forall>j<k'. \<not> bs ! j)"
        using False by (auto simp: less_Suc_eq_0_disj)
      with False Suc Cons.IH [of k'] show ?thesis by auto
    qed
  qed
qed

lemma first_contact_upto_Cons:
  "first_contact_upto ov self (st # sts) 0 = (if in_contact ov self st then Some 0 else None)"
  "first_contact_upto ov self (st # sts) (Suc i) =
     (if in_contact ov self st then Some 0 else map_option Suc (first_contact_upto ov self sts i))"
  by (simp_all add: first_contact_upto_def)

lemma infinite_counter_run:
  assumes "steps_until_reset self = Some NpInf"
    and "\<forall>st\<in>set sts. designated self st \<noteq> None"
  shows "\<exists>outs. reward_calls ov self sts = Inr outs \<and> length outs = length sts \<and>
           (\<forall>i<length sts. snd (outs ! i) =
              (case first_contact_upto ov self sts i of
                 None \<Rightarrow> False
               | Some k \<Rightarrow> steps_elapsed (reset_steps_after_contact self) (i - k)))"
  using assms
proof (induction sts arbitrary: self)
  case Nil
  show ?case by simp
next
  case (Cons st sts)
  let ?n = "reset_steps_after_contact self"
  let ?spec = "\<lambda>self sts i. (case first_contact_upto ov self sts i of
                 None \<Rightarrow> False
               | Some k \<Rightarrow> steps_elapsed (reset_steps_after_contact self) (i - k))"
  from Cons.prems have d: "designated self st \<noteq> None" by simp
  from reward_returns [OF d Cons.prems(1), of ov]
  obtain r self' where r: "reward ov self st =
        (Inr (r, below_zero (next_counter (in_contact ov self st) ?n NpInf)), self')"
    and c': "steps_until_reset self' = Some (next_counter (in_contact ov self st) ?n NpInf)"
    and l: "layers_0 self' = layers_0 self" "layers_1 self' = layers_1 self"
    and n': "reset_steps_after_contact self' = ?n"
    by blast
  from Cons.prems l have wf: "\<forall>st\<in>set sts. designated self' st \<noteq> None"
    by (simp add: designated_cong [of self' self])
  have ic: "in_contact ov self' = in_contact ov self"
    using l by (intro ext in_contact_cong)
  have fc: "\<And>i. first_contact_upto ov self' sts i = first_contact_upto ov self sts i"
    by (simp add: first_contact_upto_def ic)
  show ?case
  proof (cases "in_contact ov self st")
    case False
    with c' have "steps_until_reset self' = Some NpInf" by (simp add: next_counter_def)
    from Cons.IH [OF this wf]
    obtain outs where o: "reward_calls ov self' sts = Inr outs" "length outs = length sts"
      "\<forall>i<length sts. snd (outs ! i) = ?spec self' sts i"
      by blast
    have "\<forall>i<length (st # sts). snd (((r, False) # outs) ! i) = ?spec self (st # sts) i"
    proof (intro allI impI)
      fix i assume i: "i < length (st # sts)"
      show "snd (((r, False) # outs) ! i) = ?spec self (st # sts) i"
      proof (cases i)
        case 0
        with False show ?thesis by (simp add: first_contact_upto_Cons)
      next
        case (Suc i')
        with i o(3) have "snd (outs ! i') = ?spec self' sts i'" by simp
        with Suc False show ?thesis
          by (simp add: first_contact_upto_Cons fc n' split: option.splits)
      qed
    qed
    with r o False show ?thesis by (simp add: next_counter_def)
  next
    case True
    show ?thesis
    proof (cases ?n)
      case NpInf
      with True c' have "steps_until_reset self' = Some NpInf" by (simp add: next_counter_def)
      from Cons.IH [OF this wf]
      obtain outs where o: "reward_calls ov self' sts = Inr outs" "length outs = length sts"
        "\<forall>i<length sts. snd (outs ! i) = ?spec self' sts i"
        by blast
      have "\<forall>i<length (st # sts). snd (((r, False) # outs) ! i) = ?spec self (st # sts) i"
      proof (intro allI impI)
        fix i assume i: "i < length (st # sts)"
        show "snd (((r, False) # outs) ! i) = ?spec self (st # sts) i"
        proof (cases i)
          case 0
          with True NpInf show ?thesis by (simp add: first_contact_upto_Cons)
        next
          case (Suc i')
          with i o(3) have "snd (outs ! i') = ?spec self' sts i'" by simp
          with Suc True NpInf show ?thesis
            by (simp add: first_contact_upto_Cons n' split: option.splits)
        qed
      qed
      with r o True NpInf show ?thesis by (simp add: next_counter_def)
    next
      case (Count n)
      with True c' have "steps_until_reset self' = Some (Count (n - 1))"
        by (simp add: next_counter_def)
      from finite_counter_run [OF this wf, of ov]
      obtain outs where o: "reward_calls ov self' sts = Inr outs" "length outs = length sts"
        "\<forall>i<length sts. snd (outs ! i) = (n - 1 \<le> int i)"
        by blast
      have "\<forall>i<length (st # sts). snd (((r, n - 1 < 0) # outs) ! i) = ?spec self (st # sts) i"
      proof (intro allI impI)
        fix i assume i: "i < length (st # sts)"
        show "snd (((r, n - 1 < 0) # outs) ! i) = ?spec self (st # sts) i"
        proof (cases i)
          case 0
          with True Count show ?thesis by (auto simp: first_contact_upto_Cons)
        next
          case (Suc i')
          with i o(3) have "snd (outs ! i') = (n - 1 \<le> int i')" by simp
          with Suc True Count show ?thesis
            by (auto simp: first_contact_upto_Cons)
        qed
      qed
      with r o True Count show ?thesis by (simp add: next_counter_def)
    qed
  qed
qed

lemma first_contact_upto_Some:
  "first_contact_upto ov self sts i = Some k \<longleftrightarrow>
     k \<le> i \<and> k < length sts \<and> in_contact ov self (sts ! k) \<and>
     (\<forall>j<k. \<not> in_contact ov self (sts ! j))"
  unfolding first_contact_upto_def first_true_Some
  by (auto simp: less_Suc_eq_le)

lemma reward_calls_designated:
  "reward_calls ov self sts = Inr outs \<Longrightarrow>
     steps_until_reset self \<noteq> None \<Longrightarrow> \<forall>st\<in>set sts. designated self st \<noteq> None"
proof (induction sts arbitrary: self outs)
  case Nil
  show ?case by simp
next
  case (Cons st sts)
  have d: "designated self st \<noteq> None"
  proof
    assume "designated self st = None"
    from reward_raises [OF this, of ov] Cons.prems(1) show False by auto
  qed
  from Cons.prems(2) obtain c where c: "steps_until_reset self = Some c" by auto
  from reward_returns [OF d c, of ov]
  obtain r b self' where r: "reward ov self st = (Inr (r, b), self')"
    and c': "steps_until_reset self' \<noteq> None"
    and l: "layers_0 self' = layers_0 self" "layers_1 self' = layers_1 self"
    by auto
  from Cons.prems(1) r obtain outs' where "reward_calls ov self' sts = Inr outs'"
    by (auto split: sum.splits)
  from Cons.IH [OF this c'] l have "\<forall>st\<in>set sts. designated self st \<noteq> None"
    by (simp add: designated_cong [of self' self])
  with d show ?case by simp
qed

lemma case_form_iff:
  assumes "i < length sts"
  shows "(case first_contact_upto ov self sts i of
            None \<Rightarrow> False
          | Some k \<Rightarrow> steps_elapsed n (i - k)) \<longleftrightarrow>
         (\<exists>k\<le>i. in_contact ov self (sts ! k) \<and> (\<forall>j<k. \<not> in_contact ov self (sts ! j)) \<and>
            steps_elapsed n (i - k))"
proof (cases "first_contact_upto ov self sts i")
  case None
  have "\<not> (\<exists>k\<le>i. in_contact ov self (sts ! k) \<and> (\<forall>j<k. \<not> in_contact ov self (sts ! j)) \<and>
            steps_elapsed n (i - k))"
  proof
    assume "\<exists>k\<le>i. in_contact ov self (sts ! k) \<and> (\<forall>j<k. \<not> in_contact ov self (sts ! j)) \<and>
            steps_elapsed n (i - k)"
    then obtain k where "k \<le> i" "in_contact ov self (sts ! k)" "\<forall>j<k. \<not> in_contact ov self (sts ! j)"
      by blast
    with assms have "first_contact_upto ov self sts i = Some k"
      by (simp add: first_contact_upto_Some)
    with None show False by simp
  qed
  with None show ?thesis by simp
next
  case (Some k)
  then have k: "k \<le> i" "in_contact ov self (sts ! k)" "\<forall>j<k. \<not> in_contact ov self (sts ! j)"
    by (simp_all add: first_contact_upto_Some)
  have "(\<exists>k'\<le>i. in_contact ov self (sts ! k') \<and> (\<forall>j<k'. \<not> in_contact ov self (sts ! j)) \<and>
            steps_elapsed n (i - k')) \<longleftrightarrow> steps_elapsed n (i - k)"
  proof
    assume "\<exists>k'\<le>i. in_contact ov self (sts ! k') \<and> (\<forall>j<k'. \<not> in_contact ov self (sts ! j)) \<and>
            steps_elapsed n (i - k')"
    then obtain k' where k': "k' \<le> i" "in_contact ov self (sts ! k')"
      "\<forall>j<k'. \<not> in_contact ov self (sts ! j)" "steps_elapsed n (i - k')"
      by blast
    with assms have "first_contact_upto ov self sts i = Some k'"
      by (simp add: first_contact_upto_Some)
    with Some have "k' = k" by simp
    with k' show "steps_elapsed n (i - k)" by simp
  next
    assume "steps_elapsed n (i - k)"
    with k show "\<exists>k'\<le>i. in_contact ov self (sts ! k') \<and> (\<forall>j<k'. \<not> in_contact ov self (sts ! j)) \<and>
            steps_elapsed n (i - k')"
      by blast
  qed
  with Some show ?thesis by simp
qed

lemma reset_fields:
  "steps_until_reset (reset self) = Some NpInf" "layers_0 (reset self) = layers_0 self"
  "layers_1 (reset self) = layers_1 self"
  "reset_steps_after_contact (reset self) = reset_steps_after_contact self"
  by (simp_all add: reset_def)

lemma reset_in_contact: "in_contact ov (reset self) = in_contact ov self"
  by (intro ext in_contact_cong) (simp_all add: reset_fields)

lemma reset_first_contact: "first_contact_upto ov (reset self) sts i = first_contact_upto ov self sts i"
  by (simp add: first_contact_upto_def reset_in_contact)

lemma run_from_reset_outputs:
  assumes "\<forall>st\<in>set sts. designated self st \<noteq> None"
  shows "\<exists>outs. run_from_reset ov self sts = Inr outs \<and> length outs = length sts \<and>
           (\<forall>i<length sts. snd (outs ! i) =
              (case first_contact_upto ov self sts i of
                 None \<Rightarrow> False
               | Some k \<Rightarrow> steps_elapsed (reset_steps_after_contact self) (i - k)))"
proof -
  from assms have "\<forall>st\<in>set sts. designated (reset self) st \<noteq> None"
    by (simp add: designated_cong [of "reset self" self] reset_fields)
  from infinite_counter_run [OF reset_fields(1) this, of ov]
  show ?thesis unfolding run_from_reset_def reset_first_contact reset_fields(4) .
qed

lemma example_designated:
  "designated (proximity_example n) (agent_target_state p q) = Some (0, 1)"
  by (simp add: designated_def proximity_example_def L2Reward_def agent_target_state_def)

lemma example_contacts:
  "in_contact squares_overlap (proximity_example n) touching_state"
  "\<not> in_contact squares_overlap (proximity_example n) apart_state"
  by (simp_all add: in_contact_def example_designated touching_state_def apart_state_def)
     (simp_all add: agent_target_state_def squares_overlap_def square_sprite_def)

subsection \<open>When the rule asks for a reset\<close>

text \<open>
  Claim C6. Take a run from \<^verbatim>\<open>reset\<close> over states that each have the two designated
  sprites. Every call of \<^verbatim>\<open>reward\<close> returns, and the output \<open>should_reset\<close> of call
  \<open>i\<close> is true exactly when some call \<open>k \<le> i\<close> is the first call with the sprites in
  contact and the configured number \<^verbatim>\<open>reset_steps_after_contact\<close> of steps has elapsed
  after \<open>i - k\<close> calls. So it is false on every call before the first contact, it becomes
  true \<^verbatim>\<open>reset_steps_after_contact\<close> calls after the first contact, and it is never true
  when that number is infinite. The second form of the statement computes the first
  contact with \<open>first_contact_upto\<close>.
\<close>

theorem should_reset_follows_first_contact:
  assumes "\<forall>st\<in>set sts. designated self st \<noteq> None"
  shows "\<exists>outs. run_from_reset ov self sts = Inr outs \<and> length outs = length sts \<and>
           (\<forall>i<length sts. snd (outs ! i) \<longleftrightarrow>
              (\<exists>k\<le>i. in_contact ov self (sts ! k) \<and> (\<forall>j<k. \<not> in_contact ov self (sts ! j)) \<and>
                 steps_elapsed (reset_steps_after_contact self) (i - k))) \<and>
           (\<forall>i<length sts. snd (outs ! i) =
              (case first_contact_upto ov self sts i of
                 None \<Rightarrow> False
               | Some k \<Rightarrow> steps_elapsed (reset_steps_after_contact self) (i - k)))"
proof -
  from run_from_reset_outputs [OF assms, of ov]
  obtain outs where o: "run_from_reset ov self sts = Inr outs" "length outs = length sts"
    "\<forall>i<length sts. snd (outs ! i) =
              (case first_contact_upto ov self sts i of
                 None \<Rightarrow> False
               | Some k \<Rightarrow> steps_elapsed (reset_steps_after_contact self) (i - k))"
    by blast
  have "\<forall>i<length sts. snd (outs ! i) \<longleftrightarrow>
              (\<exists>k\<le>i. in_contact ov self (sts ! k) \<and> (\<forall>j<k. \<not> in_contact ov self (sts ! j)) \<and>
                 steps_elapsed (reset_steps_after_contact self) (i - k))"
    using o(3) case_form_iff [where sts = sts and ov = ov and self = self
        and n = "reset_steps_after_contact self"] by simp
  with o show ?thesis by blast
qed

theorem should_reset_follows_first_contact_witness:
  "designated (proximity_example (Count 2)) apart_state \<noteq> None \<and>
   designated (proximity_example (Count 2)) touching_state \<noteq> None \<and>
   (\<exists>outs. run_from_reset squares_overlap (proximity_example (Count 2))
              [apart_state, touching_state, apart_state, apart_state, touching_state] = Inr outs \<and>
            map snd outs = [False, False, False, True, True])"
proof -
  let ?self = "proximity_example (Count 2)"
  let ?sts = "[apart_state, touching_state, apart_state, apart_state, touching_state]"
  have d: "designated ?self apart_state \<noteq> None" "designated ?self touching_state \<noteq> None"
    by (simp_all add: apart_state_def touching_state_def example_designated)
  then have "\<forall>st\<in>set ?sts. designated ?self st \<noteq> None" by simp
  from should_reset_follows_first_contact [OF this, of squares_overlap]
  obtain outs where o: "run_from_reset squares_overlap ?self ?sts = Inr outs" "length outs = 5"
    and s: "\<forall>i<length ?sts. snd (outs ! i) =
              (case first_contact_upto squares_overlap ?self ?sts i of
                 None \<Rightarrow> False
               | Some k \<Rightarrow> steps_elapsed (reset_steps_after_contact ?self) (i - k))"
    by auto
  have n: "reset_steps_after_contact ?self = Count 2"
    by (simp add: proximity_example_def L2Reward_def)
  have "snd (outs ! 0) = False" "snd (outs ! 1) = False" "snd (outs ! 2) = False"
    "snd (outs ! 3) = True" "snd (outs ! 4) = True"
    using s by (simp_all add: n first_contact_upto_def example_contacts)
  with o(2) have "map snd outs = [False, False, False, True, True]"
    by (intro nth_equalityI) (auto simp: less_Suc_eq numeral_eq_Suc)
  with o(1) d show ?thesis by simp
qed

lemma run_from_reset_designated:
  "run_from_reset ov self sts = Inr outs \<Longrightarrow> \<forall>st\<in>set sts. designated self st \<noteq> None"
proof -
  assume "run_from_reset ov self sts = Inr outs"
  then have "reward_calls ov (reset self) sts = Inr outs" by (simp add: run_from_reset_def)
  then have "\<forall>st\<in>set sts. designated (reset self) st \<noteq> None"
    by (rule reward_calls_designated) (simp add: reset_fields)
  then show ?thesis
    by (simp add: designated_cong [of "reset self" self] reset_fields)
qed

lemma should_reset_needs_elapsed:
  assumes r: "run_from_reset ov self sts = Inr outs" and i: "i < length outs" and s: "snd (outs ! i)"
  shows "\<exists>k\<le>i. in_contact ov self (sts ! k) \<and> (\<forall>j<k. \<not> in_contact ov self (sts ! j)) \<and>
           steps_elapsed (reset_steps_after_contact self) (i - k)"
proof -
  from run_from_reset_outputs [OF run_from_reset_designated [OF r], of ov] r
  have l: "length outs = length sts"
    and o: "\<forall>i<length sts. snd (outs ! i) =
              (case first_contact_upto ov self sts i of
                 None \<Rightarrow> False
               | Some k \<Rightarrow> steps_elapsed (reset_steps_after_contact self) (i - k))"
    by auto
  from i l have i': "i < length sts" by simp
  with o s have "case first_contact_upto ov self sts i of
                 None \<Rightarrow> False
               | Some k \<Rightarrow> steps_elapsed (reset_steps_after_contact self) (i - k)"
    by simp
  with case_form_iff [OF i', where ov = ov and self = self
      and n = "reset_steps_after_contact self"] show ?thesis
    by simp
qed

lemma should_reset_iff_elapsed:
  assumes r: "run_from_reset ov self sts = Inr outs" and i: "i < length outs"
  shows "snd (outs ! i) \<longleftrightarrow>
           (\<exists>k\<le>i. in_contact ov self (sts ! k) \<and> (\<forall>j<k. \<not> in_contact ov self (sts ! j)) \<and>
              steps_elapsed (reset_steps_after_contact self) (i - k))"
proof -
  from run_from_reset_outputs [OF run_from_reset_designated [OF r], of ov] r
  have l: "length outs = length sts"
    and o: "\<forall>i<length sts. snd (outs ! i) =
              (case first_contact_upto ov self sts i of
                 None \<Rightarrow> False
               | Some k \<Rightarrow> steps_elapsed (reset_steps_after_contact self) (i - k))"
    by auto
  from i l have i': "i < length sts" by simp
  with o have "snd (outs ! i) =
              (case first_contact_upto ov self sts i of
                 None \<Rightarrow> False
               | Some k \<Rightarrow> steps_elapsed (reset_steps_after_contact self) (i - k))"
    by simp
  with case_form_iff [OF i', where ov = ov and self = self
      and n = "reset_steps_after_contact self"] show ?thesis
    by simp
qed

lemma reward_counter:
  assumes d: "designated self st \<noteq> None" and c: "steps_until_reset self = Some c"
  shows "steps_until_reset (snd (reward ov self st)) =
           Some (decrement (if in_contact ov self st \<and> is_inf c
                            then reset_steps_after_contact self else c))"
    and "\<exists>r. fst (reward ov self st) =
           Inr (r, below_zero (decrement (if in_contact ov self st \<and> is_inf c
                                          then reset_steps_after_contact self else c)))"
    and "layers_0 (snd (reward ov self st)) = layers_0 self"
    and "layers_1 (snd (reward ov self st)) = layers_1 self"
    and "reset_steps_after_contact (snd (reward ov self st)) = reset_steps_after_contact self"
  using reward_returns [OF d c, of ov] by (auto simp: next_counter_def)

subsection \<open>The decrement before contact\<close>

text \<open>
  Claim C7, as amended. \<^verbatim>\<open>reset\<close> sets the counter to infinity, and every call of
  \<^verbatim>\<open>reward\<close> that returns decrements it, with or without contact: the counter after the
  call is the counter before it (or, on contact with an infinite counter, the configured
  number) minus one, and \<open>should_reset\<close> says whether that is below zero. In
  particular a finite counter \<open>m\<close> becomes \<open>m - 1\<close> on every call. Infinity minus one is
  infinity: a call on an infinite counter without contact returns
  \<open>should_reset = False\<close> and leaves the counter infinite. So the decrements before the
  first contact count nothing, and in every run from \<^verbatim>\<open>reset\<close> the output
  \<open>should_reset\<close> of a call \<open>i\<close> is true exactly when there is a first contact at some
  call \<open>k \<le> i\<close> and the configured number of steps has elapsed after \<open>i - k\<close> calls.
\<close>

theorem counter_stays_infinite_until_contact:
  "steps_until_reset (reset self) = Some NpInf \<and>
   decrement NpInf = NpInf \<and>
   (\<forall>n. decrement (Count n) = Count (n - 1)) \<and>
   (steps_until_reset self = Some c \<and> designated self st \<noteq> None \<longrightarrow>
    steps_until_reset (snd (reward ov self st)) =
      Some (decrement (if in_contact ov self st \<and> is_inf c
                       then reset_steps_after_contact self else c)) \<and>
    (\<exists>r. fst (reward ov self st) =
       Inr (r, below_zero (decrement (if in_contact ov self st \<and> is_inf c
                                      then reset_steps_after_contact self else c))))) \<and>
   (steps_until_reset self = Some (Count m) \<and> designated self st \<noteq> None \<longrightarrow>
    steps_until_reset (snd (reward ov self st)) = Some (Count (m - 1)) \<and>
    (\<exists>r. fst (reward ov self st) = Inr (r, m - 1 < 0))) \<and>
   (steps_until_reset self = Some NpInf \<and> designated self st \<noteq> None \<and>
      \<not> in_contact ov self st \<longrightarrow>
    (\<exists>r. fst (reward ov self st) = Inr (r, False)) \<and>
    steps_until_reset (snd (reward ov self st)) = Some NpInf) \<and>
   (run_from_reset ov self sts = Inr outs \<and> i < length outs \<longrightarrow>
    (snd (outs ! i) \<longleftrightarrow>
      (\<exists>k\<le>i. in_contact ov self (sts ! k) \<and> (\<forall>j<k. \<not> in_contact ov self (sts ! j)) \<and>
         steps_elapsed (reset_steps_after_contact self) (i - k))))"
proof (intro conjI impI allI)
  show "steps_until_reset (reset self) = Some NpInf" by (simp add: reset_fields)
  show "decrement NpInf = NpInf" by simp
  show "decrement (Count n) = Count (n - 1)" for n by simp
next
  assume h: "steps_until_reset self = Some c \<and> designated self st \<noteq> None"
  then have d: "designated self st \<noteq> None" and c: "steps_until_reset self = Some c"
    by simp_all
  show "steps_until_reset (snd (reward ov self st)) =
      Some (decrement (if in_contact ov self st \<and> is_inf c
                       then reset_steps_after_contact self else c))"
    by (rule reward_counter(1) [OF d c])
  show "\<exists>r. fst (reward ov self st) =
       Inr (r, below_zero (decrement (if in_contact ov self st \<and> is_inf c
                                      then reset_steps_after_contact self else c)))"
    by (rule reward_counter(2) [OF d c])
next
  assume h: "steps_until_reset self = Some (Count m) \<and> designated self st \<noteq> None"
  then have d: "designated self st \<noteq> None" and c: "steps_until_reset self = Some (Count m)"
    by simp_all
  from reward_counter(1) [OF d c, of ov]
  show "steps_until_reset (snd (reward ov self st)) = Some (Count (m - 1))" by simp
  from reward_counter(2) [OF d c, of ov]
  show "\<exists>r. fst (reward ov self st) = Inr (r, m - 1 < 0)" by simp
next
  assume h: "steps_until_reset self = Some NpInf \<and> designated self st \<noteq> None \<and>
      \<not> in_contact ov self st"
  then have d: "designated self st \<noteq> None" and c: "steps_until_reset self = Some NpInf"
    and n: "\<not> in_contact ov self st"
    by simp_all
  from reward_counter(2) [OF d c, of ov] n
  show "\<exists>r. fst (reward ov self st) = Inr (r, False)" by simp
  from reward_counter(1) [OF d c, of ov] n
  show "steps_until_reset (snd (reward ov self st)) = Some NpInf" by simp
next
  assume "run_from_reset ov self sts = Inr outs \<and> i < length outs"
  then show "snd (outs ! i) \<longleftrightarrow>
      (\<exists>k\<le>i. in_contact ov self (sts ! k) \<and> (\<forall>j<k. \<not> in_contact ov self (sts ! j)) \<and>
         steps_elapsed (reset_steps_after_contact self) (i - k))"
    using should_reset_iff_elapsed by blast
qed

theorem counter_stays_infinite_witness:
  "steps_until_reset (reset (proximity_example (Count 2))) = Some NpInf \<and>
   designated (reset (proximity_example (Count 2))) apart_state \<noteq> None \<and>
   \<not> in_contact squares_overlap (reset (proximity_example (Count 2))) apart_state \<and>
   (\<exists>r. fst (reward squares_overlap (reset (proximity_example (Count 2))) apart_state) =
      Inr (r, False)) \<and>
   steps_until_reset (snd (reward squares_overlap (reset (proximity_example (Count 2))) apart_state)) =
     Some NpInf \<and>
   designated (reset (proximity_example (Count 2))) touching_state \<noteq> None \<and>
   in_contact squares_overlap (reset (proximity_example (Count 2))) touching_state \<and>
   steps_until_reset (snd (reward squares_overlap (reset (proximity_example (Count 2))) touching_state)) =
     Some (Count 1) \<and>
   designated (snd (reward squares_overlap (reset (proximity_example (Count 2))) touching_state))
     apart_state \<noteq> None \<and>
   \<not> in_contact squares_overlap
     (snd (reward squares_overlap (reset (proximity_example (Count 2))) touching_state)) apart_state \<and>
   steps_until_reset
     (snd (reward squares_overlap
        (snd (reward squares_overlap (reset (proximity_example (Count 2))) touching_state))
        apart_state)) = Some (Count 0)"
proof -
  let ?self = "reset (proximity_example (Count 2))"
  let ?self1 = "snd (reward squares_overlap ?self touching_state)"
  have c: "steps_until_reset ?self = Some NpInf" by (simp add: reset_fields)
  have n': "reset_steps_after_contact ?self = Count 2"
    by (simp add: reset_fields proximity_example_def L2Reward_def)
  have d: "designated ?self apart_state \<noteq> None"
    by (simp add: designated_cong [of ?self "proximity_example (Count 2)"] reset_fields
        apart_state_def example_designated)
  have dt: "designated ?self touching_state \<noteq> None"
    by (simp add: designated_cong [of ?self "proximity_example (Count 2)"] reset_fields
        touching_state_def example_designated)
  have n: "\<not> in_contact squares_overlap ?self apart_state"
    by (simp add: reset_in_contact example_contacts)
  have t: "in_contact squares_overlap ?self touching_state"
    by (simp add: reset_in_contact example_contacts)
  have l: "layers_0 ?self1 = layers_0 ?self" "layers_1 ?self1 = layers_1 ?self"
    by (rule reward_counter(3) [OF dt c], rule reward_counter(4) [OF dt c])
  have d1: "designated ?self1 apart_state \<noteq> None"
    using d by (simp add: designated_cong [OF l])
  have n1: "\<not> in_contact squares_overlap ?self1 apart_state"
    using n by (simp add: in_contact_cong [OF l])
  note apart = counter_stays_infinite_until_contact
    [where self = ?self and st = apart_state and ov = squares_overlap]
  note touch = counter_stays_infinite_until_contact
    [where self = ?self and st = touching_state and ov = squares_overlap and c = NpInf]
  note later = counter_stays_infinite_until_contact
    [where self = ?self1 and st = apart_state and ov = squares_overlap and m = 1]
  from apart c d n
  have a: "(\<exists>r. fst (reward squares_overlap ?self apart_state) = Inr (r, False)) \<and>
    steps_until_reset (snd (reward squares_overlap ?self apart_state)) = Some NpInf"
    by blast
  from touch c dt
  have "steps_until_reset ?self1 =
      Some (decrement (if in_contact squares_overlap ?self touching_state \<and> is_inf NpInf
                       then reset_steps_after_contact ?self else NpInf))"
    by blast
  with t n' have c1: "steps_until_reset ?self1 = Some (Count 1)" by simp
  from later c1 d1
  have "steps_until_reset (snd (reward squares_overlap ?self1 apart_state)) = Some (Count (1 - 1))"
    by blast
  then have c2: "steps_until_reset (snd (reward squares_overlap ?self1 apart_state)) = Some (Count 0)"
    by simp
  from c d n a dt t c1 d1 n1 c2 show ?thesis by blast
qed

text \<open>
  The claim as written says that for some run \<open>should_reset\<close> becomes true without the
  configured number of steps having elapsed since the first contact. There is no such run.
\<close>

theorem no_reset_before_steps_elapsed:
  "\<not> (\<exists>(ov :: real sprite \<Rightarrow> real sprite \<Rightarrow> bool) self sts outs i.
        run_from_reset ov self sts = Inr outs \<and> i < length outs \<and> snd (outs ! i) \<and>
        \<not> (\<exists>k\<le>i. in_contact ov self (sts ! k) \<and> (\<forall>j<k. \<not> in_contact ov self (sts ! j)) \<and>
               steps_elapsed (reset_steps_after_contact self) (i - k)))"
  using should_reset_needs_elapsed by blast

subsection \<open>The reward of a call that asks for a reset\<close>

text \<open>
  Claim C9. Whenever \<^verbatim>\<open>reward\<close> returns \<open>should_reset = True\<close>, the reward it returns
  with it is \<open>0\<close>: the distance-shaped value is multiplied by \<open>1 - int(should_reset)\<close>.
  (Over the reals; a float product with zero is also zero unless the value is infinite or
  not a number.)
\<close>

theorem reset_call_gives_zero_reward:
  "fst (reward ov self st) = Inr (r, True) \<Longrightarrow> r = 0"
  by (auto simp: reward_def Let_def split: sum.splits list.splits option.splits)

theorem reset_call_gives_zero_reward_witness:
  "fst (reward squares_overlap (reset (proximity_example (Count 0))) touching_state) = Inr (0, True)"
proof -
  let ?self = "reset (proximity_example (Count 0))"
  have d: "designated ?self touching_state \<noteq> None"
    by (simp add: designated_cong [of ?self "proximity_example (Count 0)"] reset_fields
        touching_state_def example_designated)
  have c: "in_contact squares_overlap ?self touching_state"
    by (simp add: reset_in_contact example_contacts)
  have n: "reset_steps_after_contact ?self = Count 0"
    by (simp add: reset_fields proximity_example_def L2Reward_def)
  from reward_returns [OF d reset_fields(1), of squares_overlap] c n
  obtain r where r: "fst (reward squares_overlap ?self touching_state) = Inr (r, True)"
    by (auto simp: next_counter_def)
  from reset_call_gives_zero_reward [OF r] r show ?thesis by simp
qed

section \<open>Properties of the Gym wrapper\<close>

lemma process_items_fst:
  "fst (process_items self obs) = map (\<lambda>(k, v). (k, coerce v)) obs"
  by (induction obs arbitrary: self) (auto simp: Let_def case_prod_beta coerce_def)

lemma process_obs_dict:
  "fst (snd (process_obs self obs)) = map (\<lambda>(k, v). (k, coerce v)) obs"
  using process_items_fst [of self obs]
  by (auto simp: process_obs_def Let_def split: prod.splits)

lemma coerced_keys: "map fst (map (\<lambda>(k, v). (k, coerce v)) obs) = map fst obs"
  by (induction obs) auto

lemma first_value:
  "obs \<noteq> [] \<Longrightarrow>
     the (map_of (map (\<lambda>(k, v). (k, coerce v)) obs) (hd (map fst obs))) = coerce (snd (hd obs))"
  by (cases obs) auto

lemma process_obs_fst: "fst (process_obs self obs) = collapsed obs"
proof -
  obtain obs' self' where p: "process_items self obs = (obs', self')" by (cases "process_items self obs")
  with process_items_fst [of self obs] have o: "obs' = map (\<lambda>(k, v). (k, coerce v)) obs" by simp
  have k: "map fst obs' = map fst obs" unfolding o by (rule coerced_keys)
  have l: "length obs' = length obs" unfolding o by simp
  have ks: "fst ` set obs' = fst ` set obs"
    using arg_cong [OF k, of set] by simp
  show ?thesis
  proof (cases "length obs = 1 \<or> (length obs = 2 \<and> ''image'' \<in> fst ` set obs)")
    case True
    then have "obs \<noteq> []" by auto
    from first_value [OF this] have "the (map_of obs' (hd (map fst obs))) = coerce (snd (hd obs))"
      unfolding o .
    with True show ?thesis
      by (simp add: process_obs_def collapsed_def p k l ks Let_def)
  next
    case False
    then have "\<not> (length (map fst obs') = 1 \<or>
        (length (map fst obs') = 2 \<and> ''image'' \<in> set (map fst obs')))"
      by (simp add: l ks)
    then have "process_obs self obs = (Dict obs', obs', self')"
      unfolding process_obs_def p Let_def prod.case by (rule if_not_P)
    moreover from False have "collapsed obs = Dict (map (\<lambda>(k, v). (k, coerce v)) obs)"
      unfolding collapsed_def by (rule if_not_P)
    ultimately show ?thesis by (simp add: o)
  qed
qed

lemma gym_reset_obs: "fst (gym_reset self ts) = collapsed (ts_observation ts)"
proof -
  obtain v d s where p: "process_obs (self\<lparr>rendered_frames := []\<rparr>) (ts_observation ts) = (v, d, s)"
    by (cases "process_obs (self\<lparr>rendered_frames := []\<rparr>) (ts_observation ts)") auto
  with process_obs_fst [of "self\<lparr>rendered_frames := []\<rparr>" "ts_observation ts"]
  show ?thesis by (simp add: gym_reset_def)
qed

lemma gym_step_result:
  "fst (gym_step self ts) =
     (let obs = ts_observation ts;
          rew = py_or (ts_reward ts) (PyInt 0);
          info0 = [(''discount'', InfoNumber (ts_discount ts))];
          info = (if ''sprite_info'' \<in> fst ` set obs
                  then info0 @ [(''sprite_info'', InfoArray (the (map_of (map (\<lambda>(k, v). (k, coerce v)) obs) ''sprite_info'')))]
                  else info0)
      in if ''image'' \<notin> fst ` set obs
         then (case collapsed obs of
                 Single a \<Rightarrow> Inr (Single (astype Float64 a), rew, ts_last ts, info)
               | Dict d \<Rightarrow> Inl AttributeError)
         else Inr (collapsed obs, rew, ts_last ts, info))"
proof -
  obtain v d s where p: "process_obs self (ts_observation ts) = (v, d, s)"
    by (cases "process_obs self (ts_observation ts)") auto
  from p process_obs_fst [of self "ts_observation ts"] have v: "v = collapsed (ts_observation ts)"
    by simp
  from p process_obs_dict [of self "ts_observation ts"]
  have d: "d = map (\<lambda>(k, v). (k, coerce v)) (ts_observation ts)" by simp
  have k: "set (map fst d) = fst ` set (ts_observation ts)"
    unfolding d coerced_keys by simp
  show ?thesis
    unfolding gym_step_def p Let_def
    by (simp add: k v d [symmetric] del: set_map split: obs_value.splits)
qed

lemma collapsed_single:
  "length obs = 1 \<Longrightarrow> collapsed obs = Single (coerce (snd (hd obs)))"
  by (simp add: collapsed_def)

subsection \<open>The observation that step and reset return\<close>

text \<open>
  Claim C8, as amended. \<^verbatim>\<open>reset\<close> returns what the claim says, for every observation
  dict: the first-listed value after the dtype coercion when the dict has one key, or two
  keys one of which is \<open>image\<close>, and the dict of coerced values otherwise. \<^verbatim>\<open>step\<close>
  returns the same when the dict has the key \<open>image\<close>. When the dict has exactly one
  key and it is not \<open>image\<close>, \<^verbatim>\<open>step\<close> returns that value, coerced and then cast to
  64-bit floats by \<^verbatim>\<open>obs.astype(np.float)\<close>.
\<close>

theorem returned_observation:
  "fst (gym_reset self ts) = collapsed (ts_observation ts) \<and>
   (''image'' \<in> fst ` set (ts_observation ts) \<longrightarrow>
      (\<exists>rew fin info. fst (gym_step self ts) =
         Inr (collapsed (ts_observation ts), rew, fin, info))) \<and>
   (''image'' \<notin> fst ` set (ts_observation ts) \<and> length (ts_observation ts) = 1 \<longrightarrow>
      (\<exists>rew fin info. fst (gym_step self ts) =
         Inr (Single (astype Float64 (coerce (snd (hd (ts_observation ts))))), rew, fin, info)))"
proof (intro conjI impI)
  show "fst (gym_reset self ts) = collapsed (ts_observation ts)"
    by (rule gym_reset_obs)
next
  assume "''image'' \<in> fst ` set (ts_observation ts)"
  then show "\<exists>rew fin info. fst (gym_step self ts) =
         Inr (collapsed (ts_observation ts), rew, fin, info)"
    by (simp add: gym_step_result Let_def)
next
  assume h: "''image'' \<notin> fst ` set (ts_observation ts) \<and> length (ts_observation ts) = 1"
  then have "collapsed (ts_observation ts) = Single (coerce (snd (hd (ts_observation ts))))"
    by (simp add: collapsed_single)
  with h show "\<exists>rew fin info. fst (gym_step self ts) =
         Inr (Single (astype Float64 (coerce (snd (hd (ts_observation ts))))), rew, fin, info)"
    by (simp add: gym_step_result Let_def)
qed

theorem returned_observation_witness:
  "''image'' \<in> fst ` set (ts_observation image_time_step) \<and>
   fst (gym_reset new_wrapper image_time_step) = Single \<lparr>dtype = UInt8, elems = [0, 255, 7]\<rparr> \<and>
   (\<exists>rew fin info. fst (gym_step new_wrapper image_time_step) =
      Inr (Single \<lparr>dtype = UInt8, elems = [0, 255, 7]\<rparr>, rew, fin, info)) \<and>
   ''image'' \<notin> fst ` set (ts_observation success_time_step) \<and>
   length (ts_observation success_time_step) = 1 \<and>
   (\<exists>rew fin info. fst (gym_step new_wrapper success_time_step) =
      Inr (Single \<lparr>dtype = Float64, elems = [1]\<rparr>, rew, fin, info))"
proof -
  have i: "''image'' \<in> fst ` set (ts_observation image_time_step)"
    by (simp add: image_time_step_def)
  have c: "collapsed (ts_observation image_time_step) = Single \<lparr>dtype = UInt8, elems = [0, 255, 7]\<rparr>"
    by (simp add: collapsed_def image_time_step_def coerce_def)
  have s: "''image'' \<notin> fst ` set (ts_observation success_time_step) \<and>
      length (ts_observation success_time_step) = 1"
    by (simp add: success_time_step_def)
  have a: "astype Float64 (coerce (snd (hd (ts_observation success_time_step)))) =
      \<lparr>dtype = Float64, elems = [1]\<rparr>"
    by (simp add: success_time_step_def coerce_def astype_def)
  note inst1 = returned_observation [where self = new_wrapper and ts = image_time_step]
  note inst2 = returned_observation [where self = new_wrapper and ts = success_time_step]
  from inst1 i c have "fst (gym_reset new_wrapper image_time_step) =
        Single \<lparr>dtype = UInt8, elems = [0, 255, 7]\<rparr>"
    and "\<exists>rew fin info. fst (gym_step new_wrapper image_time_step) =
      Inr (Single \<lparr>dtype = UInt8, elems = [0, 255, 7]\<rparr>, rew, fin, info)"
    by simp_all
  moreover from inst2 s a have "\<exists>rew fin info. fst (gym_step new_wrapper success_time_step) =
      Inr (Single \<lparr>dtype = Float64, elems = [1]\<rparr>, rew, fin, info)"
    by simp
  ultimately show ?thesis using i s by simp
qed

text \<open>
  The claim as written has \<^verbatim>\<open>step\<close> return the coerced value itself. For a dict whose one
  key \<open>success\<close> holds a boolean array, the coerced value has dtype \<^verbatim>\<open>float32\<close>, which
  is what \<^verbatim>\<open>reset\<close> returns, and \<^verbatim>\<open>step\<close> returns an array of dtype \<^verbatim>\<open>float64\<close>.
\<close>

theorem step_casts_single_observation:
  "length (ts_observation success_time_step) = 1 \<and>
   collapsed (ts_observation success_time_step) = Single \<lparr>dtype = Float32, elems = [1]\<rparr> \<and>
   fst (gym_reset new_wrapper success_time_step) = Single \<lparr>dtype = Float32, elems = [1]\<rparr> \<and>
   fst (gym_step new_wrapper success_time_step) =
     Inr (Single \<lparr>dtype = Float64, elems = [1]\<rparr>, PyFloat 1, False,
          [(''discount'', InfoNumber (PyFloat 1))]) \<and>
   fst (gym_step new_wrapper success_time_step) \<noteq>
     Inr (collapsed (ts_observation success_time_step), PyFloat 1, False,
          [(''discount'', InfoNumber (PyFloat 1))])"
  by (simp add: gym_reset_obs gym_step_result Let_def success_time_step_def collapsed_def
      coerce_def astype_def py_or_def)

text \<open>
  For a dict of two keys without \<open>image\<close> the same cast is applied to the dict, and
  \<^verbatim>\<open>step\<close> raises \<^verbatim>\<open>AttributeError\<close>.
\<close>

lemma step_dict_without_image_raises:
  "fst (gym_step new_wrapper two_key_time_step) = Inl AttributeError \<and>
   collapsed (ts_observation two_key_time_step) =
     Dict [(''state'', \<lparr>dtype = Float64, elems = [1/2, 1/2]\<rparr>),
           (''success'', \<lparr>dtype = Float32, elems = [0]\<rparr>)]"
  by (simp add: gym_step_result Let_def two_key_time_step_def collapsed_def coerce_def astype_def)

subsection \<open>The reward that step returns\<close>

text \<open>
  Claim C10. When the reward of the time step is \<^verbatim>\<open>None\<close> or a number that is false
  (\<open>0\<close>, \<open>0.0\<close>), every tuple that \<^verbatim>\<open>step\<close> returns has the integer \<open>0\<close> as its
  reward, and \<^verbatim>\<open>step\<close> does return such a tuple whenever the observation dict has the
  key \<open>image\<close> or exactly one key.
\<close>

theorem falsy_reward_becomes_zero:
  assumes "\<not> truthy (ts_reward ts)"
  shows "(''image'' \<in> fst ` set (ts_observation ts) \<or> length (ts_observation ts) = 1 \<longrightarrow>
           (\<exists>obs fin info. fst (gym_step self ts) = Inr (obs, PyInt 0, fin, info))) \<and>
         (\<forall>obs rew fin info. fst (gym_step self ts) = Inr (obs, rew, fin, info) \<longrightarrow> rew = PyInt 0)"
proof (intro conjI impI allI)
  from assms have r: "py_or (ts_reward ts) (PyInt 0) = PyInt 0" by (simp add: py_or_def)
  {
    assume "''image'' \<in> fst ` set (ts_observation ts) \<or> length (ts_observation ts) = 1"
    then show "\<exists>obs fin info. fst (gym_step self ts) = Inr (obs, PyInt 0, fin, info)"
      by (auto simp: gym_step_result Let_def r collapsed_single)
  }
  fix obs rew fin info
  assume "fst (gym_step self ts) = Inr (obs, rew, fin, info)"
  then show "rew = PyInt 0"
    by (auto simp: gym_step_result Let_def r split: if_splits obs_value.splits)
qed

theorem falsy_reward_becomes_zero_witness:
  "\<not> truthy (ts_reward image_time_step) \<and> \<not> truthy (PyFloat 0) \<and>
   ''image'' \<in> fst ` set (ts_observation image_time_step) \<and>
   (\<exists>obs fin info. fst (gym_step new_wrapper image_time_step) = Inr (obs, PyInt 0, fin, info))"
proof -
  have t: "\<not> truthy (ts_reward image_time_step)" by (simp add: image_time_step_def)
  have i: "''image'' \<in> fst ` set (ts_observation image_time_step)"
    by (simp add: image_time_step_def)
  from falsy_reward_becomes_zero [OF t, of new_wrapper] i
  have "\<exists>obs fin info. fst (gym_step new_wrapper image_time_step) = Inr (obs, PyInt 0, fin, info)"
    by blast
  with t i show ?thesis by simp
qed

end
